theory Spec2Isabelle
  imports Complex_Main
begin

section \<open>The topic pattern\<close>

text \<open>
  \<^verbatim>\<open>on_message\<close> compiles the pattern
  \<^verbatim>\<open>/(?P<node_name>\w+)/(?P<measurement_name>\w+)/?\<close> and applies it with
  \<^verbatim>\<open>regex.match\<close>, which anchors the pattern at the start of the topic and
  nowhere else. No flag is given, so \<^verbatim>\<open>\w\<close> is the class
  \<^verbatim>\<open>[a-zA-Z0-9_]\<close>. Strings are lists of 8-bit characters.
\<close>

definition is_word :: "char \<Rightarrow> bool" where
  "is_word c = (let k = (of_char c :: nat) in
     (48 \<le> k \<and> k \<le> 57) \<or> (65 \<le> k \<and> k \<le> 90) \<or> k = 95 \<or> (97 \<le> k \<and> k \<le> 122))"

text \<open>
  The fragment of regular expressions the pattern is written in: a literal character,
  a greedy \<^verbatim>\<open>\w+\<close>, an optional literal character, and a named group around
  one of these.
\<close>

datatype re = Lit char | Word_plus | Opt char | Group string re

text \<open>
  The ways one item can match at the start of a string, in the order a backtracking
  matcher tries them: each is the text consumed and the text left. The greedy
  \<^verbatim>\<open>\w+\<close> tries the longest run of word characters first and then gives
  characters back one at a time, down to one character; the optional literal tries to
  consume its character before it tries to consume nothing.
\<close>

fun alternatives :: "re \<Rightarrow> string \<Rightarrow> (string \<times> string) list" where
  "alternatives (Lit c) s =
     (case s of [] \<Rightarrow> [] | x # xs \<Rightarrow> if x = c then [([x], xs)] else [])"
| "alternatives Word_plus s =
     map (\<lambda>k. (take k s, drop k s)) (rev [1..<Suc (length (takeWhile is_word s))])"
| "alternatives (Opt c) s =
     (case s of [] \<Rightarrow> [([], [])]
      | x # xs \<Rightarrow> if x = c then [([x], xs), ([], s)] else [([], s)])"
| "alternatives (Group name r) s = alternatives r s"

fun bind_group :: "re \<Rightarrow> string \<Rightarrow> (string \<times> string) list \<Rightarrow> (string \<times> string) list" where
  "bind_group (Group name r) c g = g @ [(name, c)]"
| "bind_group r c g = g"

text \<open>
  All the matches of a sequence of items at the start of a string, in backtracking
  order; each match is the list of its named groups.
\<close>

primrec match_seq ::
  "re list \<Rightarrow> string \<Rightarrow> (string \<times> string) list \<Rightarrow> (string \<times> string) list list" where
  "match_seq [] = (\<lambda>s g. [g])"
| "match_seq (r # rs) =
     (\<lambda>s g. concat (map (\<lambda>(c, rest). match_seq rs rest (bind_group r c g)) (alternatives r s)))"

text \<open>\<^verbatim>\<open>regex.match(s)\<close>: the first match in backtracking order, or \<^verbatim>\<open>None\<close>.\<close>

definition re_match :: "re list \<Rightarrow> string \<Rightarrow> (string \<times> string) list option" where
  "re_match p s = (case match_seq p s [] of [] \<Rightarrow> None | g # gs \<Rightarrow> Some g)"

text \<open>\<^verbatim>\<open>match.group(name)\<close>; both groups of the pattern take part in every match.\<close>

definition match_group :: "(string \<times> string) list \<Rightarrow> string \<Rightarrow> string" where
  "match_group g name = (case map_of g name of Some s \<Rightarrow> s | None \<Rightarrow> [])"

definition regex :: "re list" where
  "regex = [Lit CHR ''/'', Group ''node_name'' Word_plus,
            Lit CHR ''/'', Group ''measurement_name'' Word_plus, Opt CHR ''/'']"

section \<open>The payload as a float\<close>

text \<open>
  \<^verbatim>\<open>float(value)\<close> on a byte string, the builtin of the interpreter the file is
  written for (the \<^verbatim>\<open>ur''\<close> literal makes it Python 2): white space is skipped on
  both sides; in between stands a decimal literal (optional sign, digits with an optional
  point and at least one digit, optional exponent) or, with an optional sign and in any
  case, \<^verbatim>\<open>inf\<close>, \<^verbatim>\<open>infinity\<close> or \<^verbatim>\<open>nan\<close>. Anything else raises
  \<^verbatim>\<open>ValueError\<close>, here \<open>None\<close>.

  A finite float is represented by the real number its literal denotes; the rounding of
  that number to a binary64 value (and the overflow of a huge literal to infinity) is
  not part of the model.
\<close>

datatype pyfloat = Finite real | Infinite bool | NaN

definition is_space :: "char \<Rightarrow> bool" where
  "is_space c = (let k = (of_char c :: nat) in (9 \<le> k \<and> k \<le> 13) \<or> k = 32)"

definition is_digit :: "char \<Rightarrow> bool" where
  "is_digit c = (let k = (of_char c :: nat) in 48 \<le> k \<and> k \<le> 57)"

definition digits_value :: "string \<Rightarrow> nat" where
  "digits_value ds = foldl (\<lambda>a c. 10 * a + ((of_char c :: nat) - 48)) 0 ds"

definition lower :: "char \<Rightarrow> char" where
  "lower c = (let k = (of_char c :: nat) in if 65 \<le> k \<and> k \<le> 90 then char_of (k + 32) else c)"

definition parse_sign :: "string \<Rightarrow> bool \<times> string" where
  "parse_sign s = (case s of [] \<Rightarrow> (False, s)
     | c # r \<Rightarrow> if c = CHR ''-'' then (True, r) else if c = CHR ''+'' then (False, r)
                else (False, s))"

text \<open>An exponent with no digit is not part of the literal: the \<^verbatim>\<open>e\<close> stays unread.\<close>

definition parse_exponent :: "string \<Rightarrow> int \<times> string" where
  "parse_exponent s = (case s of [] \<Rightarrow> (0, s)
     | c # r \<Rightarrow>
         if c = CHR ''e'' \<or> c = CHR ''E'' then
           (let (neg, r1) = parse_sign r; ds = takeWhile is_digit r1 in
            if ds = [] then (0, s)
            else (if neg then - int (digits_value ds) else int (digits_value ds),
                  dropWhile is_digit r1))
         else (0, s))"

definition scale10 :: "real \<Rightarrow> int \<Rightarrow> real" where
  "scale10 x k = (if 0 \<le> k then x * 10 ^ nat k else x / 10 ^ nat (- k))"

text \<open>The decimal literal at the start of a string, and the text after it.\<close>

definition strtod :: "string \<Rightarrow> (real \<times> string) option" where
  "strtod s =
     (let (neg, s1) = parse_sign s;
          ip = takeWhile is_digit s1;
          r1 = dropWhile is_digit s1;
          (fp, r2) = (case r1 of [] \<Rightarrow> ([], r1)
                      | c # r \<Rightarrow> if c = CHR ''.''
                                 then (takeWhile is_digit r, dropWhile is_digit r)
                                 else ([], r1))
      in if ip = [] \<and> fp = [] then None
         else (let (e, r3) = parse_exponent r2;
                   x = scale10 (real (digits_value (ip @ fp))) (e - int (length fp))
               in Some (if neg then - x else x, r3)))"

definition parse_inf_or_nan :: "string \<Rightarrow> (pyfloat \<times> string) option" where
  "parse_inf_or_nan s =
     (let (neg, s1) = parse_sign s; l = map lower s1 in
      if take 3 l = ''inf'' then
        (if take 5 (drop 3 l) = ''inity'' then Some (Infinite neg, drop 8 s1)
         else Some (Infinite neg, drop 3 s1))
      else if take 3 l = ''nan'' then Some (NaN, drop 3 s1)
      else None)"

definition py_float :: "string \<Rightarrow> pyfloat option" where
  "py_float s =
     (let s1 = dropWhile is_space s in
      case (case strtod s1 of Some (x, r) \<Rightarrow> Some (Finite x, r)
            | None \<Rightarrow> parse_inf_or_nan s1) of
        None \<Rightarrow> None
      | Some (x, r) \<Rightarrow> if dropWhile is_space r = [] then Some x else None)"

section \<open>Values, objects and the world\<close>

text \<open>
  The Python values that occur: the record value (a float or the raw payload), strings,
  and the dictionary that \<^verbatim>\<open>store_msg\<close> builds, with its keys in the order written.
\<close>

datatype pyval = PyFloat pyfloat | PyStr string | PyDict "(string \<times> pyval) list"

text \<open>
  The exceptions that occur. \<open>ConnectionError\<close> stands for
  \<^verbatim>\<open>requests.exceptions.ConnectionError\<close> and its subclasses, which the
  \<^verbatim>\<open>except\<close> clause of \<^verbatim>\<open>InfluxStore.store_msg\<close> catches;
  \<open>InfluxDBClientError\<close> for what the client raises on a rejected request (a malformed
  point, a failed authentication).
\<close>

datatype exn =
    AttributeError string
  | TypeError string
  | NotImplementedError
  | ConnectionError string
  | InfluxDBClientError string

fun is_connection_error :: "exn \<Rightarrow> bool" where
  "is_connection_error (ConnectionError d) = True"
| "is_connection_error e = False"

text \<open>
  The storage client is an external collaborator. Its behaviour is given by the outcomes
  of its coming \<^verbatim>\<open>write_points\<close> calls, one per call (a call beyond the list
  succeeds); it keeps the batches it has accepted.
\<close>

datatype outcome = WriteOk | WriteFails exn

datatype influx_client = InfluxDBClient (pending: "outcome list") (written: "pyval list list")

text \<open>
  The module is written for sinks of other classes too: \<^verbatim>\<open>MessageStore\<close> is the base
  class to derive them from, \<^verbatim>\<open>register_store\<close> takes any object, and the loop of
  the handler calls whatever \<^verbatim>\<open>store_msg\<close> the object has. Such a sink is given by
  what its coming invocations do, one reaction per invocation (an invocation beyond the
  list returns): it returns, or it raises an exception.
\<close>

datatype reaction = Returns | Raises exn

text \<open>
  Objects live in a heap and are referred to by address, so that one sink registered
  twice is one object, and the list that \<^verbatim>\<open>stores\<close> returns is an object other
  than \<^verbatim>\<open>_stores\<close>.
\<close>

type_synonym ref = nat

datatype obj =
    ListObj "ref list"
  | MessageStoreObj
  | InfluxStoreObj influx_client
  | OtherStoreObj "reaction list"

datatype level = DEBUG | INFO | WARNING | ERROR

datatype logmsg = Fmt string "pyval list" | Exc exn

text \<open>
  What is observed of a run: the calls on the loggers, the invocations of
  \<^verbatim>\<open>store_msg\<close> on a sink, and the \<^verbatim>\<open>write_points\<close> calls of a sink on its
  client.
\<close>

datatype event =
    Log string level logmsg
  | StoreMsg ref string string pyval
  | WritePoints ref "pyval list"

record world =
  heap :: "ref \<Rightarrow> obj option"
  nxt :: ref
  trace :: "event list"

text \<open>
  An \<^verbatim>\<open>MQTTSource\<close>. The attribute \<^verbatim>\<open>_stores\<close> does not exist until
  \<^verbatim>\<open>register_store\<close> creates it: \<open>stores_attr\<close> is \<open>None\<close> until then. The
  transport client is an external collaborator and is left out.
\<close>

record mqtt_source =
  host :: string
  port :: string
  node_names :: "string list"
  stores_attr :: "ref option"

record message =
  topic :: string
  payload :: string

definition logger_call :: "string \<Rightarrow> level \<Rightarrow> logmsg \<Rightarrow> world \<Rightarrow> world" where
  "logger_call name lv m w = w\<lparr>trace := trace w @ [Log name lv m]\<rparr>"

definition alloc :: "obj \<Rightarrow> world \<Rightarrow> ref \<times> world" where
  "alloc ob w = (nxt w, w\<lparr>heap := (heap w)(nxt w \<mapsto> ob), nxt := Suc (nxt w)\<rparr>)"

section \<open>The sinks\<close>

text \<open>\<^verbatim>\<open>InfluxStore(...)\<close>: a new sink around a client with the given behaviour.\<close>

definition new_influx_store :: "outcome list \<Rightarrow> world \<Rightarrow> ref \<times> world" where
  "new_influx_store outcomes w = alloc (InfluxStoreObj (InfluxDBClient outcomes [])) w"

text \<open>\<^verbatim>\<open>MessageStore()\<close>: an instance of the base class.\<close>

definition new_message_store :: "world \<Rightarrow> ref \<times> world" where
  "new_message_store w = alloc MessageStoreObj w"

text \<open>A new sink of another class, with the given reactions.\<close>

definition new_other_store :: "reaction list \<Rightarrow> world \<Rightarrow> ref \<times> world" where
  "new_other_store reactions w = alloc (OtherStoreObj reactions) w"

definition influx_msg :: "string \<Rightarrow> string \<Rightarrow> pyval \<Rightarrow> pyval" where
  "influx_msg node_name measurement_name v =
     PyDict [(''measurement'', PyStr measurement_name),
             (''tags'', PyDict [(''sensor_node'', PyStr node_name)]),
             (''fields'', PyDict [(''value'', v)])]"

text \<open>\<^verbatim>\<open>self.influx_client.write_points(points)\<close> of the sink at \<open>s\<close>.\<close>

definition write_points :: "ref \<Rightarrow> pyval list \<Rightarrow> world \<Rightarrow> (exn + unit) \<times> world" where
  "write_points s points w =
     (case heap w s of
        Some (InfluxStoreObj (InfluxDBClient ps wr)) \<Rightarrow>
          (let w1 = w\<lparr>trace := trace w @ [WritePoints s points]\<rparr> in
           case ps of
             [] \<Rightarrow> (Inr (),
               w1\<lparr>heap := (heap w1)(s \<mapsto> InfluxStoreObj (InfluxDBClient [] (wr @ [points])))\<rparr>)
           | WriteOk # ps' \<Rightarrow> (Inr (),
               w1\<lparr>heap := (heap w1)(s \<mapsto> InfluxStoreObj (InfluxDBClient ps' (wr @ [points])))\<rparr>)
           | WriteFails e # ps' \<Rightarrow> (Inl e,
               w1\<lparr>heap := (heap w1)(s \<mapsto> InfluxStoreObj (InfluxDBClient ps' wr))\<rparr>))
      | _ \<Rightarrow> (Inl (AttributeError ''influx_client''), w))"

text \<open>\<^verbatim>\<open>InfluxStore.store_msg\<close>.\<close>

definition influx_store_msg ::
  "ref \<Rightarrow> string \<Rightarrow> string \<Rightarrow> pyval \<Rightarrow> world \<Rightarrow> (exn + unit) \<times> world" where
  "influx_store_msg s node_name measurement_name v w =
     (let m = influx_msg node_name measurement_name v;
          w1 = logger_call ''forwarder.InfluxStore'' DEBUG (Fmt ''Writing InfluxDB point: %s'' [m]) w
      in case write_points s [m] w1 of
           (Inl e, w2) \<Rightarrow>
             if is_connection_error e
             then (Inr (), logger_call ''forwarder.InfluxStore'' ERROR (Exc e) w2)
             else (Inl e, w2)
         | (Inr u, w2) \<Rightarrow> (Inr (), w2))"

text \<open>
  \<^verbatim>\<open>store.store_msg(node_name, measurement_name, value)\<close>: the method of the class
  of the object at \<open>s\<close>. The base class raises \<^verbatim>\<open>NotImplementedError\<close>; a sink
  of another class reacts as it is given to; an object with no such method is not invoked,
  the attribute lookup fails.
\<close>

definition store_msg ::
  "ref \<Rightarrow> string \<Rightarrow> string \<Rightarrow> pyval \<Rightarrow> world \<Rightarrow> (exn + unit) \<times> world" where
  "store_msg s node_name measurement_name v w =
     (case heap w s of
        Some MessageStoreObj \<Rightarrow>
          (Inl NotImplementedError,
           w\<lparr>trace := trace w @ [StoreMsg s node_name measurement_name v]\<rparr>)
      | Some (InfluxStoreObj c) \<Rightarrow>
          influx_store_msg s node_name measurement_name v
            (w\<lparr>trace := trace w @ [StoreMsg s node_name measurement_name v]\<rparr>)
      | Some (OtherStoreObj rs) \<Rightarrow>
          (let w1 = w\<lparr>trace := trace w @ [StoreMsg s node_name measurement_name v]\<rparr> in
           case rs of
             [] \<Rightarrow> (Inr (), w1)
           | Returns # rs' \<Rightarrow> (Inr (), w1\<lparr>heap := (heap w1)(s \<mapsto> OtherStoreObj rs')\<rparr>)
           | Raises e # rs' \<Rightarrow> (Inl e, w1\<lparr>heap := (heap w1)(s \<mapsto> OtherStoreObj rs')\<rparr>))
      | _ \<Rightarrow> (Inl (AttributeError ''store_msg''), w))"

section \<open>The source\<close>

text \<open>\<^verbatim>\<open>MQTTSource.__init__\<close>.\<close>

definition mqtt_source_init :: "string \<Rightarrow> string \<Rightarrow> string list \<Rightarrow> mqtt_source" where
  "mqtt_source_init h p names =
     \<lparr>host = h, port = p, node_names = names, stores_attr = None\<rparr>"

text \<open>\<^verbatim>\<open>MessageSource.register_store\<close>.\<close>

definition register_store ::
  "ref \<Rightarrow> mqtt_source \<Rightarrow> world \<Rightarrow> (exn + unit) \<times> mqtt_source \<times> world" where
  "register_store store self w =
     (let (self1, w1) =
            (case stores_attr self of
               None \<Rightarrow> (let (l, w') = alloc (ListObj []) w in (self\<lparr>stores_attr := Some l\<rparr>, w'))
             | Some l \<Rightarrow> (self, w))
      in case stores_attr self1 of
           None \<Rightarrow> (Inl (AttributeError ''_stores''), self1, w1)
         | Some l \<Rightarrow>
             (case heap w1 l of
                Some (ListObj xs) \<Rightarrow>
                  (Inr (), self1, w1\<lparr>heap := (heap w1)(l \<mapsto> ListObj (xs @ [store]))\<rparr>)
              | _ \<Rightarrow> (Inl (AttributeError ''append''), self1, w1)))"

text \<open>The property \<^verbatim>\<open>MessageSource.stores\<close>: \<^verbatim>\<open>list(self._stores)\<close>, a new list.\<close>

definition stores :: "mqtt_source \<Rightarrow> world \<Rightarrow> (exn + ref) \<times> world" where
  "stores self w =
     (case stores_attr self of
        None \<Rightarrow> (Inl (AttributeError ''_stores''), w)
      | Some l \<Rightarrow>
          (case heap w l of
             Some (ListObj xs) \<Rightarrow> (let (r, w') = alloc (ListObj xs) w in (Inr r, w'))
           | _ \<Rightarrow> (Inl (TypeError ''object is not iterable''), w)))"

definition list_contents :: "world \<Rightarrow> ref \<Rightarrow> ref list" where
  "list_contents w r = (case heap w r of Some (ListObj xs) \<Rightarrow> xs | _ \<Rightarrow> [])"

text \<open>
  The loop \<^verbatim>\<open>for store in ...: store.store_msg(node_name, measurement_name, value)\<close>
  over the elements of the copy; an exception of a sink leaves the loop.
\<close>

fun for_stores ::
  "ref list \<Rightarrow> string \<Rightarrow> string \<Rightarrow> pyval \<Rightarrow> world \<Rightarrow> (exn + unit) \<times> world" where
  "for_stores [] node_name measurement_name v w = (Inr (), w)"
| "for_stores (s # ss) node_name measurement_name v w =
     (case store_msg s node_name measurement_name v w of
        (Inl e, w1) \<Rightarrow> (Inl e, w1)
      | (Inr u, w1) \<Rightarrow> for_stores ss node_name measurement_name v w1)"

text \<open>The value of the record: \<^verbatim>\<open>float(value)\<close>, or the payload as it came.\<close>

definition coerce :: "string \<Rightarrow> pyval" where
  "coerce p = (case py_float p of Some x \<Rightarrow> PyFloat x | None \<Rightarrow> PyStr p)"

text \<open>
  The handler \<^verbatim>\<open>on_message\<close>. When the node name is not among
  \<^verbatim>\<open>self.node_names\<close>, the arguments of the warning are evaluated first, and
  \<^verbatim>\<open>self.node_name\<close> is an attribute no \<^verbatim>\<open>MQTTSource\<close> has: the lookup raises
  \<^verbatim>\<open>AttributeError\<close> before the logger is called.
\<close>

definition on_message :: "mqtt_source \<Rightarrow> message \<Rightarrow> world \<Rightarrow> (exn + unit) \<times> world" where
  "on_message self msg w =
     (let w1 = logger_call ''forwarder.MQTTSource'' DEBUG
                 (Fmt ''Received MQTT message for topic %s with payload %s''
                    [PyStr (topic msg), PyStr (payload msg)]) w
      in case re_match regex (topic msg) of
           None \<Rightarrow>
             (Inr (), logger_call ''forwarder.MQTTSource'' WARNING
                (Fmt ''Could not extract node name or measurement name from topic %s''
                   [PyStr (topic msg)]) w1)
         | Some match \<Rightarrow>
             (let v = coerce (payload msg);
                  node_name = match_group match ''node_name''
              in if node_name \<notin> set (node_names self)
                 then (Inl (AttributeError ''node_name''), w1)
                 else (let measurement_name = match_group match ''measurement_name'' in
                       case stores self w1 of
                         (Inl e, w2) \<Rightarrow> (Inl e, w2)
                       | (Inr r, w2) \<Rightarrow>
                           for_stores (list_contents w2 r) node_name measurement_name v w2)))"

section \<open>Notions the properties are stated with\<close>

text \<open>The invocations of \<^verbatim>\<open>store_msg\<close> in a trace: sink and arguments, in order.\<close>

fun invocations :: "event list \<Rightarrow> (ref \<times> string \<times> string \<times> pyval) list" where
  "invocations [] = []"
| "invocations (StoreMsg s n m v # es) = (s, n, m, v) # invocations es"
| "invocations (e # es) = invocations es"

definition store_calls :: "world \<Rightarrow> (ref \<times> string \<times> string \<times> pyval) list" where
  "store_calls w = invocations (trace w)"

text \<open>The batches handed to \<^verbatim>\<open>write_points\<close> in a trace, each with its sink.\<close>

fun batches :: "event list \<Rightarrow> (ref \<times> pyval list) list" where
  "batches [] = []"
| "batches (WritePoints s ps # es) = (s, ps) # batches es"
| "batches (e # es) = batches es"

text \<open>\<^verbatim>\<open>d[k]\<close> on a dictionary, \<open>None\<close> when the key is absent.\<close>

fun lookup :: "pyval \<Rightarrow> string \<Rightarrow> pyval option" where
  "lookup (PyDict d) k = map_of d k"
| "lookup v k = None"

text \<open>The elements of \<^verbatim>\<open>_stores\<close>: the sinks registered so far.\<close>

definition registered :: "mqtt_source \<Rightarrow> world \<Rightarrow> ref list" where
  "registered self w = (case stores_attr self of None \<Rightarrow> [] | Some l \<Rightarrow> list_contents w l)"

text \<open>
  The states the program reaches: \<^verbatim>\<open>_stores\<close>, once it exists, is an allocated list
  of allocated objects (addresses are handed out in increasing order).
\<close>

definition well_formed :: "mqtt_source \<Rightarrow> world \<Rightarrow> bool" where
  "well_formed self w =
     (case stores_attr self of
        None \<Rightarrow> True
      | Some l \<Rightarrow> l < nxt w \<and>
          (case heap w l of Some (ListObj xs) \<Rightarrow> list_all (\<lambda>s. s < nxt w) xs | _ \<Rightarrow> False))"

text \<open>
  A sink whose \<^verbatim>\<open>store_msg\<close> returns: an \<^verbatim>\<open>InfluxStore\<close> each of whose coming
  writes succeeds or fails with a connectivity failure, or a sink of another class that
  returns from each of its coming invocations.
\<close>

fun transient :: "outcome \<Rightarrow> bool" where
  "transient WriteOk = True"
| "transient (WriteFails e) = is_connection_error e"

definition sink_returns :: "world \<Rightarrow> ref \<Rightarrow> bool" where
  "sink_returns w s =
     (case heap w s of
        Some (InfluxStoreObj c) \<Rightarrow> list_all transient (pending c)
      | Some (OtherStoreObj rs) \<Rightarrow> list_all (\<lambda>r. r = Returns) rs
      | _ \<Rightarrow> False)"

text \<open>A caller that registers the sinks of a list one after the other.\<close>

fun register_all ::
  "ref list \<Rightarrow> mqtt_source \<Rightarrow> world \<Rightarrow> (exn + unit) \<times> mqtt_source \<times> world" where
  "register_all [] self w = (Inr (), self, w)"
| "register_all (s # ss) self w =
     (case register_store s self w of
        (Inl e, self1, w1) \<Rightarrow> (Inl e, self1, w1)
      | (Inr u, self1, w1) \<Rightarrow> register_all ss self1 w1)"

text \<open>
  A caller that mutates the list object at \<open>r\<close> in place (appends, deletes, assigns,
  sorts), leaving it with the elements \<open>ys\<close>.
\<close>

definition list_assign :: "ref \<Rightarrow> ref list \<Rightarrow> world \<Rightarrow> world" where
  "list_assign r ys w =
     (case heap w r of Some (ListObj xs) \<Rightarrow> w\<lparr>heap := (heap w)(r \<mapsto> ListObj ys)\<rparr> | _ \<Rightarrow> w)"

text \<open>Two worlds that differ at most in the object at \<open>r\<close>.\<close>

definition same_but :: "ref \<Rightarrow> world \<Rightarrow> world \<Rightarrow> bool" where
  "same_but r w w' =
     (trace w = trace w' \<and> nxt w = nxt w' \<and> (\<forall>a. a \<noteq> r \<longrightarrow> heap w a = heap w' a))"

text \<open>
  The shape of a topic in the words of the specification, the whole topic being matched:
  a slash, a node of word characters, a slash, a measurement of word characters, and then
  nothing or a slash followed by anything.
\<close>

definition spec_topic_shape :: "string \<Rightarrow> bool" where
  "spec_topic_shape t =
     (case t of [] \<Rightarrow> False
      | c # r \<Rightarrow> c = CHR ''/'' \<and> takeWhile is_word r \<noteq> [] \<and>
          (case dropWhile is_word r of [] \<Rightarrow> False
           | d # r2 \<Rightarrow> d = CHR ''/'' \<and> takeWhile is_word r2 \<noteq> [] \<and>
               (case dropWhile is_word r2 of [] \<Rightarrow> True | e # r3 \<Rightarrow> e = CHR ''/'')))"

text \<open>
  The wiring of \<^verbatim>\<open>main\<close>, for any number of sinks: from the empty world, one
  \<^verbatim>\<open>InfluxStore\<close> for each client behaviour given, then the source with its node
  names, then the sinks registered in order.
\<close>

definition world0 :: world where
  "world0 = \<lparr>heap = (\<lambda>a. None), nxt = 0, trace = []\<rparr>"

fun new_sinks :: "outcome list list \<Rightarrow> world \<Rightarrow> ref list \<times> world" where
  "new_sinks [] w = ([], w)"
| "new_sinks (os # oss) w =
     (let (s, w1) = new_influx_store os w; (ss, w2) = new_sinks oss w1 in (s # ss, w2))"

definition deployment :: "string list \<Rightarrow> outcome list list \<Rightarrow> mqtt_source \<times> world" where
  "deployment names oss =
     (let (ss, w1) = new_sinks oss world0;
          (r, self, w2) = register_all ss (mqtt_source_init ''mqtt'' ''1883'' names) w1
      in (self, w2))"

text \<open>The transport delivering one message to the handler of such a deployment.\<close>

definition deliver ::
  "string list \<Rightarrow> outcome list list \<Rightarrow> message \<Rightarrow> (exn + unit) \<times> world" where
  "deliver names oss msg = (case deployment names oss of (self, w) \<Rightarrow> on_message self msg w)"

text \<open>The same wiring and delivery with sinks of any class, each given as an object.\<close>

fun new_objects :: "obj list \<Rightarrow> world \<Rightarrow> ref list \<times> world" where
  "new_objects [] w = ([], w)"
| "new_objects (ob # obs) w =
     (let (s, w1) = alloc ob w; (ss, w2) = new_objects obs w1 in (s # ss, w2))"

definition deployment_of :: "string list \<Rightarrow> obj list \<Rightarrow> mqtt_source \<times> world" where
  "deployment_of names obs =
     (let (ss, w1) = new_objects obs world0;
          (r, self, w2) = register_all ss (mqtt_source_init ''mqtt'' ''1883'' names) w1
      in (self, w2))"

definition deliver_to :: "string list \<Rightarrow> obj list \<Rightarrow> message \<Rightarrow> (exn + unit) \<times> world" where
  "deliver_to names obs msg =
     (case deployment_of names obs of (self, w) \<Rightarrow> on_message self msg w)"

section \<open>The topic pattern, characterised\<close>

text \<open>
  The first match of the pattern, in closed form: the node is the longest run of word
  characters after the first slash, it is followed by a slash, and the measurement is the
  longest run of word characters after that slash. What follows the measurement is not
  looked at.
\<close>

lemma concat_map_Nil: "(\<And>k. k \<in> set ks \<Longrightarrow> F k = []) \<Longrightarrow> concat (map F ks) = []"
  by (induction ks) auto

lemma rev_upt_from_1: "0 < n \<Longrightarrow> rev [1..<Suc n] = n # rev [1..<n]"
  by (cases n) simp_all

lemma drop_in_run:
  assumes "k < length (takeWhile P s)"
  shows "\<exists>x xs. drop k s = x # xs \<and> P x"
proof -
  have kl: "k < length s" using assms length_takeWhile_le [of P s] by (meson less_le_trans)
  have "P (takeWhile P s ! k)" using assms by (meson nth_mem set_takeWhileD)
  then have "P (s ! k)" using assms by (simp add: takeWhile_nth)
  moreover have "drop k s = s ! k # drop (Suc k) s" using kl by (simp add: Cons_nth_drop_Suc)
  ultimately show ?thesis by blast
qed

lemma take_drop_run:
  "take (length (takeWhile P s)) s = takeWhile P s" "drop (length (takeWhile P s)) s = dropWhile P s"
  by (induction s) auto

lemma word_plus_then_lit:
  assumes "\<not> is_word c"
  shows "match_seq (Group name Word_plus # Lit c # rs) s g =
     (if takeWhile is_word s = [] then []
      else (case dropWhile is_word s of [] \<Rightarrow> []
            | d # r \<Rightarrow> if d = c then match_seq rs r (g @ [(name, takeWhile is_word s)]) else []))"
proof (cases "takeWhile is_word s = []")
  case True
  then show ?thesis by simp
next
  case False
  define n where "n = length (takeWhile is_word s)"
  define F where "F = (\<lambda>k. concat (map (\<lambda>(c', rest). match_seq rs rest (g @ [(name, take k s)]))
                                (alternatives (Lit c) (drop k s))))"
  have n0: "0 < n" using False by (simp add: n_def)
  have short: "F k = []" if "k \<in> set (rev [1..<n])" for k
  proof -
    have "k < n" using that by simp
    then obtain x xs where "drop k s = x # xs" "is_word x"
      using drop_in_run [of k is_word s] by (auto simp: n_def)
    then show ?thesis using assms by (auto simp: F_def)
  qed
  have "match_seq (Group name Word_plus # Lit c # rs) s g = concat (map F (rev [1..<Suc n]))"
    by (simp add: F_def n_def comp_def)
  also have "\<dots> = F n" using n0 concat_map_Nil [of "rev [1..<n]" F] short
    by (simp add: rev_upt_from_1)
  also have "\<dots> = (case dropWhile is_word s of [] \<Rightarrow> []
            | d # r \<Rightarrow> if d = c then match_seq rs r (g @ [(name, takeWhile is_word s)]) else [])"
  proof -
    define D where "D = dropWhile is_word s"
    have "F n = concat (map (\<lambda>(c', rest). match_seq rs rest (g @ [(name, takeWhile is_word s)]))
                          (alternatives (Lit c) D))"
      by (simp add: F_def n_def D_def take_drop_run)
    also have "\<dots> = (case D of [] \<Rightarrow> []
            | d # r \<Rightarrow> if d = c then match_seq rs r (g @ [(name, takeWhile is_word s)]) else [])"
      by (cases D) simp_all
    finally show ?thesis by (simp only: D_def)
  qed
  finally show ?thesis using False by simp
qed

lemma word_plus_then_opt_none:
  "takeWhile is_word s = [] \<Longrightarrow> match_seq [Group name Word_plus, Opt c] s g = []"
  by simp

lemma word_plus_then_opt_some:
  assumes "takeWhile is_word s \<noteq> []"
  shows "\<exists>ys. match_seq [Group name Word_plus, Opt c] s g = (g @ [(name, takeWhile is_word s)]) # ys"
proof -
  define n where "n = length (takeWhile is_word s)"
  have n0: "0 < n" using assms by (simp add: n_def)
  have "match_seq [Group name Word_plus, Opt c] s g =
          concat (map (\<lambda>k. concat (map (\<lambda>(c', rest). [g @ [(name, take k s)]])
                                       (alternatives (Opt c) (drop k s)))) (rev [1..<Suc n]))"
    by (simp add: n_def comp_def)
  also have "\<dots> = concat (map (\<lambda>(c', rest). [g @ [(name, take n s)]]) (alternatives (Opt c) (drop n s)))
        @ concat (map (\<lambda>k. concat (map (\<lambda>(c', rest). [g @ [(name, take k s)]])
                                       (alternatives (Opt c) (drop k s)))) (rev [1..<n]))"
    using n0 by (simp add: rev_upt_from_1)
  finally have eq: "match_seq [Group name Word_plus, Opt c] s g =
      concat (map (\<lambda>(c', rest). [g @ [(name, take n s)]]) (alternatives (Opt c) (drop n s)))
        @ concat (map (\<lambda>k. concat (map (\<lambda>(c', rest). [g @ [(name, take k s)]])
                                       (alternatives (Opt c) (drop k s)))) (rev [1..<n]))" .
  have "\<exists>zs. concat (map (\<lambda>(c', rest). [g @ [(name, take n s)]]) (alternatives (Opt c) (drop n s)))
          = (g @ [(name, takeWhile is_word s)]) # zs"
    by (cases "drop n s") (simp_all add: n_def take_drop_run(1))
  then show ?thesis using eq by auto
qed

lemma re_match_regex:
  "re_match regex t =
     (case t of [] \<Rightarrow> None
      | c # r \<Rightarrow>
          if c \<noteq> CHR ''/'' \<or> takeWhile is_word r = [] then None
          else (case dropWhile is_word r of [] \<Rightarrow> None
                | d # r2 \<Rightarrow>
                    if d \<noteq> CHR ''/'' \<or> takeWhile is_word r2 = [] then None
                    else Some [(''node_name'', takeWhile is_word r),
                               (''measurement_name'', takeWhile is_word r2)]))"
proof -
  have nw: "\<not> is_word CHR ''/''" by (simp add: is_word_def)
  have tail: "(case match_seq [Group ''measurement_name'' Word_plus, Opt CHR ''/''] s g of
                 [] \<Rightarrow> None | x # xs \<Rightarrow> Some x) =
              (if takeWhile is_word s = [] then None
               else Some (g @ [(''measurement_name'', takeWhile is_word s)]))" for s g
    using word_plus_then_opt_none [of s "''measurement_name''" "CHR ''/''" g]
      word_plus_then_opt_some [of s "''measurement_name''" "CHR ''/''" g]
    by (cases "takeWhile is_word s = []") (auto simp del: match_seq.simps)
  have head: "match_seq regex t [] =
     (case t of [] \<Rightarrow> []
      | c # r \<Rightarrow>
          if c \<noteq> CHR ''/'' \<or> takeWhile is_word r = [] then []
          else (case dropWhile is_word r of [] \<Rightarrow> []
                | d # r2 \<Rightarrow>
                    if d = CHR ''/''
                    then match_seq [Group ''measurement_name'' Word_plus, Opt CHR ''/''] r2
                           ([] @ [(''node_name'', takeWhile is_word r)])
                    else []))"
  proof (cases t)
    case Nil
    then show ?thesis by (simp add: regex_def)
  next
    case (Cons c r)
    have "match_seq regex (c # r) [] =
            (if c = CHR ''/''
             then match_seq [Group ''node_name'' Word_plus, Lit CHR ''/'',
                    Group ''measurement_name'' Word_plus, Opt CHR ''/''] r []
             else [])"
      unfolding regex_def by (subst match_seq.simps(2)) (simp del: match_seq.simps)
    then show ?thesis
      unfolding Cons by (simp only: word_plus_then_lit [OF nw] list.case) (simp del: match_seq.simps)
  qed
  show ?thesis
  proof (cases t)
    case Nil
    then show ?thesis by (simp add: re_match_def regex_def)
  next
    case (Cons c r)
    note h = head [unfolded Cons list.case]
    show ?thesis
    proof (cases "dropWhile is_word r")
      case Nil
      then show ?thesis unfolding re_match_def \<open>t = c # r\<close> h
        by (simp del: match_seq.simps dropWhile_eq_Nil_conv)
    next
      case (Cons d r2)
      then show ?thesis unfolding re_match_def \<open>t = c # r\<close> h
        using tail [of r2 "[(''node_name'', takeWhile is_word r)]"]
        by (simp del: match_seq.simps)
    qed
  qed
qed

lemma run_then_rest:
  assumes "list_all P n" "rest = [] \<or> \<not> P (hd rest)"
  shows "takeWhile P (n @ rest) = n" "dropWhile P (n @ rest) = rest"
proof -
  have a: "\<forall>x\<in>set n. P x" using assms(1) by (simp add: list_all_iff)
  have b: "takeWhile P rest = []" using assms(2) by (cases rest) auto
  have c: "dropWhile P rest = rest" using assms(2) by (cases rest) auto
  show "takeWhile P (n @ rest) = n" using a b by (simp add: takeWhile_append2)
  show "dropWhile P (n @ rest) = rest" using a c by (simp add: dropWhile_append2)
qed

lemma slash_not_word: "\<not> is_word CHR ''/''"
  by (simp add: is_word_def)

lemma re_match_prefix:
  assumes "n \<noteq> []" "list_all is_word n" "m \<noteq> []" "list_all is_word m"
    "rest = [] \<or> \<not> is_word (hd rest)"
  shows "re_match regex (CHR ''/'' # n @ CHR ''/'' # m @ rest) =
           Some [(''node_name'', n), (''measurement_name'', m)]"
proof -
  have n: "takeWhile is_word (n @ CHR ''/'' # m @ rest) = n"
          "dropWhile is_word (n @ CHR ''/'' # m @ rest) = CHR ''/'' # m @ rest"
    using run_then_rest [of is_word n "CHR ''/'' # m @ rest"] assms(2) slash_not_word by simp_all
  have m: "takeWhile is_word (m @ rest) = m"
    using run_then_rest(1) [of is_word m rest] assms(4,5) by simp
  show ?thesis using assms(1,3) by (simp add: re_match_regex n m)
qed

lemma re_match_None_iff:
  "re_match regex t = None \<longleftrightarrow>
     \<not> (\<exists>n m rest. t = CHR ''/'' # n @ CHR ''/'' # m @ rest \<and>
            n \<noteq> [] \<and> list_all is_word n \<and> m \<noteq> [] \<and> list_all is_word m)"
proof
  assume none: "re_match regex t = None"
  show "\<not> (\<exists>n m rest. t = CHR ''/'' # n @ CHR ''/'' # m @ rest \<and>
            n \<noteq> [] \<and> list_all is_word n \<and> m \<noteq> [] \<and> list_all is_word m)"
  proof
    assume "\<exists>n m rest. t = CHR ''/'' # n @ CHR ''/'' # m @ rest \<and>
            n \<noteq> [] \<and> list_all is_word n \<and> m \<noteq> [] \<and> list_all is_word m"
    then obtain n m rest where t: "t = CHR ''/'' # n @ CHR ''/'' # m @ rest"
      and n: "n \<noteq> []" "list_all is_word n" and m: "m \<noteq> []" "list_all is_word m" by blast
    define m' where "m' = m @ takeWhile is_word rest"
    define rest' where "rest' = dropWhile is_word rest"
    have split: "m @ rest = m' @ rest'" by (simp add: m'_def rest'_def)
    have m': "m' \<noteq> []" "list_all is_word m'"
      using m by (auto simp: m'_def list_all_iff dest: set_takeWhileD)
    have r': "rest' = [] \<or> \<not> is_word (hd rest')"
      unfolding rest'_def by (metis hd_dropWhile)
    have "re_match regex (CHR ''/'' # n @ CHR ''/'' # m' @ rest') =
            Some [(''node_name'', n), (''measurement_name'', m')]"
      using re_match_prefix [OF n m' r'] .
    then show False using none t split by simp
  qed
next
  assume no: "\<not> (\<exists>n m rest. t = CHR ''/'' # n @ CHR ''/'' # m @ rest \<and>
            n \<noteq> [] \<and> list_all is_word n \<and> m \<noteq> [] \<and> list_all is_word m)"
  show "re_match regex t = None"
  proof (rule ccontr)
    assume "re_match regex t \<noteq> None"
    then obtain r r2 where t: "t = CHR ''/'' # r" and n: "takeWhile is_word r \<noteq> []"
      and d: "dropWhile is_word r = CHR ''/'' # r2" and m: "takeWhile is_word r2 \<noteq> []"
      by (auto simp: re_match_regex split: list.splits if_splits)
    have "r = takeWhile is_word r @ CHR ''/'' # takeWhile is_word r2 @ dropWhile is_word r2"
      using takeWhile_dropWhile_id [of is_word r] d by simp
    moreover have "list_all is_word (takeWhile is_word r)" "list_all is_word (takeWhile is_word r2)"
      by (auto simp: list_all_iff dest: set_takeWhileD)
    ultimately show False using no t n m by blast
  qed
qed

text \<open>
  The shape of the specification, said with the parts of the topic.
\<close>

lemma spec_topic_shape_iff:
  "spec_topic_shape t \<longleftrightarrow>
     (\<exists>n m. n \<noteq> [] \<and> list_all is_word n \<and> m \<noteq> [] \<and> list_all is_word m \<and>
        (t = CHR ''/'' # n @ CHR ''/'' # m \<or>
         (\<exists>anything. t = CHR ''/'' # n @ CHR ''/'' # m @ CHR ''/'' # anything)))"
proof
  assume "spec_topic_shape t"
  then obtain r r2 where t: "t = CHR ''/'' # r" and n: "takeWhile is_word r \<noteq> []"
    and d: "dropWhile is_word r = CHR ''/'' # r2" and m: "takeWhile is_word r2 \<noteq> []"
    and e: "dropWhile is_word r2 = [] \<or> (\<exists>r3. dropWhile is_word r2 = CHR ''/'' # r3)"
    by (auto simp: spec_topic_shape_def simp del: dropWhile_eq_Nil_conv split: list.splits)
  have r: "r = takeWhile is_word r @ CHR ''/'' # takeWhile is_word r2 @ dropWhile is_word r2"
    using takeWhile_dropWhile_id [of is_word r] d by simp
  have w: "list_all is_word (takeWhile is_word r)" "list_all is_word (takeWhile is_word r2)"
    by (auto simp: list_all_iff dest: set_takeWhileD)
  from e show "\<exists>n m. n \<noteq> [] \<and> list_all is_word n \<and> m \<noteq> [] \<and> list_all is_word m \<and>
        (t = CHR ''/'' # n @ CHR ''/'' # m \<or>
         (\<exists>anything. t = CHR ''/'' # n @ CHR ''/'' # m @ CHR ''/'' # anything))"
  proof
    assume "dropWhile is_word r2 = []"
    then have "r = takeWhile is_word r @ CHR ''/'' # takeWhile is_word r2 @ []"
      using r by (simp only:)
    then have "t = CHR ''/'' # takeWhile is_word r @ CHR ''/'' # takeWhile is_word r2"
      using t by (simp only: append_Nil2)
    then show ?thesis using n m w by blast
  next
    assume "\<exists>r3. dropWhile is_word r2 = CHR ''/'' # r3"
    then obtain r3 where "dropWhile is_word r2 = CHR ''/'' # r3" by blast
    then have "r = takeWhile is_word r @ CHR ''/'' # takeWhile is_word r2 @ CHR ''/'' # r3"
      using r by (simp only:)
    then have "t = CHR ''/'' # takeWhile is_word r @ CHR ''/'' # takeWhile is_word r2 @ CHR ''/'' # r3"
      using t by (simp only:)
    then show ?thesis using n m w by blast
  qed
next
  assume "\<exists>n m. n \<noteq> [] \<and> list_all is_word n \<and> m \<noteq> [] \<and> list_all is_word m \<and>
        (t = CHR ''/'' # n @ CHR ''/'' # m \<or>
         (\<exists>anything. t = CHR ''/'' # n @ CHR ''/'' # m @ CHR ''/'' # anything))"
  then obtain n m rest where n: "n \<noteq> []" "list_all is_word n" and m: "m \<noteq> []" "list_all is_word m"
    and t: "t = CHR ''/'' # n @ CHR ''/'' # m @ rest" and rest: "rest = [] \<or> hd rest = CHR ''/''"
    by (metis append_Nil2 list.sel(1))
  have r': "rest = [] \<or> \<not> is_word (hd rest)" using rest slash_not_word by auto
  have a: "takeWhile is_word (n @ CHR ''/'' # m @ rest) = n"
          "dropWhile is_word (n @ CHR ''/'' # m @ rest) = CHR ''/'' # m @ rest"
    using run_then_rest [of is_word n "CHR ''/'' # m @ rest"] n(2) slash_not_word by simp_all
  have b: "takeWhile is_word (m @ rest) = m" "dropWhile is_word (m @ rest) = rest"
    using run_then_rest [of is_word m rest] m(2) r' by simp_all
  have "spec_topic_shape t = (case rest of [] \<Rightarrow> True | e # r3 \<Rightarrow> e = CHR ''/'')"
    using n(1) m(1) unfolding spec_topic_shape_def t
    by (simp add: a b del: dropWhile_eq_Nil_conv)
  then show "spec_topic_shape t" using rest by (cases rest) auto
qed

section \<open>What one invocation of a sink does\<close>

lemma invocations_append: "invocations (es @ fs) = invocations es @ invocations fs"
  by (induction es rule: invocations.induct) simp_all

lemma batches_append: "batches (es @ fs) = batches es @ batches fs"
  by (induction es rule: batches.induct) simp_all

lemma influx_store_msg_eq:
  assumes "heap w s = Some (InfluxStoreObj (InfluxDBClient ps wr))"
  shows "influx_store_msg s n m v w =
     (let es = [Log ''forwarder.InfluxStore'' DEBUG
                  (Fmt ''Writing InfluxDB point: %s'' [influx_msg n m v]),
                WritePoints s [influx_msg n m v]]
      in case ps of
           [] \<Rightarrow> (Inr (), w\<lparr>heap := (heap w)(s \<mapsto> InfluxStoreObj
                      (InfluxDBClient [] (wr @ [[influx_msg n m v]]))),
                    trace := trace w @ es\<rparr>)
         | WriteOk # ps' \<Rightarrow> (Inr (), w\<lparr>heap := (heap w)(s \<mapsto> InfluxStoreObj
                      (InfluxDBClient ps' (wr @ [[influx_msg n m v]]))),
                    trace := trace w @ es\<rparr>)
         | WriteFails e # ps' \<Rightarrow>
             if is_connection_error e
             then (Inr (), w\<lparr>heap := (heap w)(s \<mapsto> InfluxStoreObj (InfluxDBClient ps' wr)),
                    trace := trace w @ es @ [Log ''forwarder.InfluxStore'' ERROR (Exc e)]\<rparr>)
             else (Inl e, w\<lparr>heap := (heap w)(s \<mapsto> InfluxStoreObj (InfluxDBClient ps' wr)),
                    trace := trace w @ es\<rparr>))"
  using assms
  by (simp add: influx_store_msg_def write_points_def logger_call_def Let_def
      split: list.split outcome.split)

lemma store_msg_influx:
  assumes "heap w s = Some (InfluxStoreObj (InfluxDBClient ps wr))"
  shows "store_msg s n m v w =
     (let es = [StoreMsg s n m v,
                Log ''forwarder.InfluxStore'' DEBUG
                  (Fmt ''Writing InfluxDB point: %s'' [influx_msg n m v]),
                WritePoints s [influx_msg n m v]]
      in case ps of
           [] \<Rightarrow> (Inr (), w\<lparr>heap := (heap w)(s \<mapsto> InfluxStoreObj
                      (InfluxDBClient [] (wr @ [[influx_msg n m v]]))),
                    trace := trace w @ es\<rparr>)
         | WriteOk # ps' \<Rightarrow> (Inr (), w\<lparr>heap := (heap w)(s \<mapsto> InfluxStoreObj
                      (InfluxDBClient ps' (wr @ [[influx_msg n m v]]))),
                    trace := trace w @ es\<rparr>)
         | WriteFails e # ps' \<Rightarrow>
             if is_connection_error e
             then (Inr (), w\<lparr>heap := (heap w)(s \<mapsto> InfluxStoreObj (InfluxDBClient ps' wr)),
                    trace := trace w @ es @ [Log ''forwarder.InfluxStore'' ERROR (Exc e)]\<rparr>)
             else (Inl e, w\<lparr>heap := (heap w)(s \<mapsto> InfluxStoreObj (InfluxDBClient ps' wr)),
                    trace := trace w @ es\<rparr>))"
  using assms
  by (simp add: store_msg_def influx_store_msg_def write_points_def logger_call_def Let_def
      split: list.split outcome.split)

lemma store_msg_base:
  "heap w s = Some MessageStoreObj \<Longrightarrow>
     store_msg s n m v w = (Inl NotImplementedError, w\<lparr>trace := trace w @ [StoreMsg s n m v]\<rparr>)"
  by (simp add: store_msg_def)

lemma store_msg_other:
  assumes "heap w s = Some (OtherStoreObj rs)"
  shows "store_msg s n m v w =
     (case rs of
        [] \<Rightarrow> (Inr (), w\<lparr>trace := trace w @ [StoreMsg s n m v]\<rparr>)
      | Returns # rs' \<Rightarrow> (Inr (), w\<lparr>heap := (heap w)(s \<mapsto> OtherStoreObj rs'),
                               trace := trace w @ [StoreMsg s n m v]\<rparr>)
      | Raises e # rs' \<Rightarrow> (Inl e, w\<lparr>heap := (heap w)(s \<mapsto> OtherStoreObj rs'),
                              trace := trace w @ [StoreMsg s n m v]\<rparr>))"
  using assms by (simp add: store_msg_def Let_def split: list.split reaction.split)

lemma store_msg_no_method:
  "heap w s = None \<or> (\<exists>xs. heap w s = Some (ListObj xs)) \<Longrightarrow>
     store_msg s n m v w = (Inl (AttributeError ''store_msg''), w)"
  by (auto simp: store_msg_def)

lemma store_msg_calls:
  "store_calls (snd (store_msg s n m v w)) = store_calls w @ [(s, n, m, v)]
   \<or> (store_calls (snd (store_msg s n m v w)) = store_calls w \<and>
       (\<exists>e. fst (store_msg s n m v w) = Inl e))"
proof (cases "heap w s")
  case None
  then show ?thesis by (simp add: store_msg_no_method)
next
  case (Some ob)
  show ?thesis
  proof (cases ob)
    case (ListObj xs)
    then show ?thesis using Some by (simp add: store_msg_no_method)
  next
    case MessageStoreObj
    then show ?thesis using Some
      by (simp add: store_msg_base store_calls_def invocations_append)
  next
    case (InfluxStoreObj c)
    obtain ps wr where "c = InfluxDBClient ps wr" by (cases c)
    then show ?thesis using Some InfluxStoreObj
      by (simp add: store_msg_influx store_calls_def invocations_append Let_def
          split: list.split outcome.split)
  next
    case (OtherStoreObj rs)
    then show ?thesis using Some
      by (simp add: store_msg_other store_calls_def invocations_append
          split: list.split reaction.split)
  qed
qed

lemma store_msg_frame: "s' \<noteq> s \<Longrightarrow> heap (snd (store_msg s n m v w)) s' = heap w s'"
proof (cases "heap w s")
  case None
  then show ?thesis by (simp add: store_msg_no_method)
next
  case (Some ob)
  assume ne: "s' \<noteq> s"
  show ?thesis
  proof (cases ob)
    case (ListObj xs)
    then show ?thesis using Some by (simp add: store_msg_no_method)
  next
    case MessageStoreObj
    then show ?thesis using Some by (simp add: store_msg_base)
  next
    case (InfluxStoreObj c)
    obtain ps wr where "c = InfluxDBClient ps wr" by (cases c)
    then show ?thesis using Some InfluxStoreObj ne
      by (simp add: store_msg_influx Let_def split: list.split outcome.split)
  next
    case (OtherStoreObj rs)
    then show ?thesis using Some ne
      by (simp add: store_msg_other split: list.split reaction.split)
  qed
qed

lemma store_msg_trace: "\<exists>es. trace (snd (store_msg s n m v w)) = trace w @ es"
proof (cases "heap w s")
  case None
  then show ?thesis by (simp add: store_msg_no_method)
next
  case (Some ob)
  show ?thesis
  proof (cases ob)
    case (ListObj xs)
    then show ?thesis using Some by (simp add: store_msg_no_method)
  next
    case MessageStoreObj
    then show ?thesis using Some by (simp add: store_msg_base)
  next
    case (InfluxStoreObj c)
    obtain ps wr where "c = InfluxDBClient ps wr" by (cases c)
    then show ?thesis using Some InfluxStoreObj
      by (simp add: store_msg_influx Let_def split: list.split outcome.split)
  next
    case (OtherStoreObj rs)
    then show ?thesis using Some
      by (simp add: store_msg_other split: list.split reaction.split)
  qed
qed

lemma store_msg_keeps:
  "nxt (snd (store_msg s n m v w)) = nxt w \<and>
   (heap w a = Some (ListObj xs) \<longrightarrow> heap (snd (store_msg s n m v w)) a = Some (ListObj xs))"
proof (cases "heap w s")
  case None
  then show ?thesis by (simp add: store_msg_no_method)
next
  case (Some ob)
  show ?thesis
  proof (cases ob)
    case (ListObj ys)
    then show ?thesis using Some by (simp add: store_msg_no_method)
  next
    case MessageStoreObj
    then show ?thesis using Some by (simp add: store_msg_base)
  next
    case (InfluxStoreObj c)
    obtain ps wr where "c = InfluxDBClient ps wr" by (cases c)
    then show ?thesis using Some InfluxStoreObj
      by (auto simp: store_msg_influx Let_def split: list.split outcome.split)
  next
    case (OtherStoreObj rs)
    then show ?thesis using Some
      by (auto simp: store_msg_other split: list.split reaction.split)
  qed
qed

lemma store_msg_returns:
  assumes "sink_returns w s"
  shows "fst (store_msg s n m v w) = Inr ()"
    "store_calls (snd (store_msg s n m v w)) = store_calls w @ [(s, n, m, v)]"
    "sink_returns w s' \<Longrightarrow> sink_returns (snd (store_msg s n m v w)) s'"
proof -
  have "fst (store_msg s n m v w) = Inr () \<and>
    store_calls (snd (store_msg s n m v w)) = store_calls w @ [(s, n, m, v)] \<and>
    (sink_returns w s' \<longrightarrow> sink_returns (snd (store_msg s n m v w)) s')"
  proof (cases "heap w s")
    case None
    then show ?thesis using assms by (simp add: sink_returns_def)
  next
    case (Some ob)
    show ?thesis
    proof (cases ob)
      case (ListObj xs)
      then show ?thesis using Some assms by (simp add: sink_returns_def)
    next
      case MessageStoreObj
      then show ?thesis using Some assms by (simp add: sink_returns_def)
    next
      case (InfluxStoreObj c)
      obtain ps wr where c: "c = InfluxDBClient ps wr" by (cases c)
      have h: "heap w s = Some (InfluxStoreObj (InfluxDBClient ps wr))"
        using Some InfluxStoreObj c by simp
      have t: "list_all transient ps" using assms h by (simp add: sink_returns_def)
      show ?thesis
        using t h by (auto simp: store_msg_influx [OF h] Let_def sink_returns_def store_calls_def
            invocations_append split: list.split outcome.split)
    next
      case (OtherStoreObj rs)
      have h: "heap w s = Some (OtherStoreObj rs)" using Some OtherStoreObj by simp
      have t: "list_all (\<lambda>r. r = Returns) rs" using assms h by (simp add: sink_returns_def)
      show ?thesis
        using t h by (auto simp: store_msg_other [OF h] sink_returns_def store_calls_def
            invocations_append split: list.split reaction.split)
    qed
  qed
  then show "fst (store_msg s n m v w) = Inr ()"
    "store_calls (snd (store_msg s n m v w)) = store_calls w @ [(s, n, m, v)]"
    "sink_returns w s' \<Longrightarrow> sink_returns (snd (store_msg s n m v w)) s'" by simp_all
qed

lemma store_msg_same_but:
  assumes "same_but r w w'" "s \<noteq> r"
  shows "fst (store_msg s n m v w) = fst (store_msg s n m v w')"
    "same_but r (snd (store_msg s n m v w)) (snd (store_msg s n m v w'))"
proof -
  have hs: "heap w s = heap w' s" and tr: "trace w = trace w'" and nx: "nxt w = nxt w'"
    and hp: "\<And>a. a \<noteq> r \<Longrightarrow> heap w a = heap w' a"
    using assms by (simp_all add: same_but_def)
  have "fst (store_msg s n m v w) = fst (store_msg s n m v w') \<and>
    same_but r (snd (store_msg s n m v w)) (snd (store_msg s n m v w'))"
  proof (cases "heap w s")
    case None
    then show ?thesis using hs assms(1) by (simp add: store_msg_no_method)
  next
    case (Some ob)
    show ?thesis
    proof (cases ob)
      case (ListObj xs)
      then show ?thesis using Some hs assms(1) by (simp add: store_msg_no_method)
    next
      case MessageStoreObj
      then show ?thesis using Some hs tr nx hp
        by (simp add: store_msg_base same_but_def)
    next
      case (InfluxStoreObj c)
      obtain ps wr where "c = InfluxDBClient ps wr" by (cases c)
      then have h: "heap w s = Some (InfluxStoreObj (InfluxDBClient ps wr))"
        "heap w' s = Some (InfluxStoreObj (InfluxDBClient ps wr))"
        using Some InfluxStoreObj hs by simp_all
      show ?thesis using tr nx hp
        by (simp add: store_msg_influx [OF h(1)] store_msg_influx [OF h(2)] Let_def same_but_def
            split: list.split outcome.split)
    next
      case (OtherStoreObj rs)
      then have h: "heap w s = Some (OtherStoreObj rs)" "heap w' s = Some (OtherStoreObj rs)"
        using Some hs by simp_all
      show ?thesis using tr nx hp
        by (simp add: store_msg_other [OF h(1)] store_msg_other [OF h(2)] same_but_def
            split: list.split reaction.split)
    qed
  qed
  then show "fst (store_msg s n m v w) = fst (store_msg s n m v w')"
    "same_but r (snd (store_msg s n m v w)) (snd (store_msg s n m v w'))" by simp_all
qed

section \<open>The loop over the sinks\<close>

lemma for_stores_calls:
  "\<exists>k\<le>length ss. store_calls (snd (for_stores ss n m v w)) =
        store_calls w @ map (\<lambda>s. (s, n, m, v)) (take k ss)
      \<and> (fst (for_stores ss n m v w) = Inr () \<longrightarrow> k = length ss)"
proof (induction ss arbitrary: w)
  case Nil
  then show ?case by simp
next
  case (Cons s ss)
  obtain r w1 where sm: "store_msg s n m v w = (r, w1)" by (cases "store_msg s n m v w")
  show ?case
  proof (cases r)
    case (Inl e)
    from store_msg_calls [of s n m v w] sm Inl
    have "store_calls w1 = store_calls w @ [(s, n, m, v)] \<or> store_calls w1 = store_calls w"
      by auto
    then show ?thesis
    proof
      assume "store_calls w1 = store_calls w @ [(s, n, m, v)]"
      then show ?thesis using sm Inl by (intro exI [of _ 1]) simp
    next
      assume "store_calls w1 = store_calls w"
      then show ?thesis using sm Inl by (intro exI [of _ 0]) simp
    qed
  next
    case (Inr u)
    from store_msg_calls [of s n m v w] sm Inr
    have c1: "store_calls w1 = store_calls w @ [(s, n, m, v)]" by auto
    from Cons.IH [of w1] obtain k where k: "k \<le> length ss"
      "store_calls (snd (for_stores ss n m v w1)) =
         store_calls w1 @ map (\<lambda>s. (s, n, m, v)) (take k ss)"
      "fst (for_stores ss n m v w1) = Inr () \<longrightarrow> k = length ss" by blast
    show ?thesis using sm Inr k c1 by (intro exI [of _ "Suc k"]) simp
  qed
qed

lemma for_stores_append:
  "for_stores (xs @ ys) n m v w =
     (case for_stores xs n m v w of
        (Inl e, w1) \<Rightarrow> (Inl e, w1)
      | (Inr u, w1) \<Rightarrow> for_stores ys n m v w1)"
  by (induction xs arbitrary: w) (auto split: prod.split sum.split)

lemma for_stores_frame:
  "s' \<notin> set ss \<Longrightarrow> heap (snd (for_stores ss n m v w)) s' = heap w s'"
proof (induction ss arbitrary: w)
  case Nil
  then show ?case by simp
next
  case (Cons s ss)
  obtain r w1 where sm: "store_msg s n m v w = (r, w1)" by (cases "store_msg s n m v w")
  have h: "heap w1 s' = heap w s'" using store_msg_frame [of s' s n m v w] sm Cons.prems by simp
  show ?case
  proof (cases r)
    case (Inl e)
    then show ?thesis using sm h by simp
  next
    case (Inr u)
    then show ?thesis using sm h Cons.IH [of w1] Cons.prems by simp
  qed
qed

lemma for_stores_trace: "\<exists>es. trace (snd (for_stores ss n m v w)) = trace w @ es"
proof (induction ss arbitrary: w)
  case Nil
  then show ?case by simp
next
  case (Cons s ss)
  obtain r w1 where sm: "store_msg s n m v w = (r, w1)" by (cases "store_msg s n m v w")
  obtain es where es: "trace w1 = trace w @ es" using store_msg_trace [of s n m v w] sm by auto
  show ?case
  proof (cases r)
    case (Inl e)
    then show ?thesis using sm es by simp
  next
    case (Inr u)
    obtain fs where "trace (snd (for_stores ss n m v w1)) = trace w1 @ fs"
      using Cons.IH [of w1] by blast
    then show ?thesis using sm es Inr by simp
  qed
qed

lemma for_stores_keeps:
  "nxt (snd (for_stores ss n m v w)) = nxt w \<and>
   (heap w a = Some (ListObj xs) \<longrightarrow> heap (snd (for_stores ss n m v w)) a = Some (ListObj xs))"
proof (induction ss arbitrary: w)
  case Nil
  then show ?case by simp
next
  case (Cons s ss)
  obtain r w1 where sm: "store_msg s n m v w = (r, w1)" by (cases "store_msg s n m v w")
  have k: "nxt w1 = nxt w" "heap w a = Some (ListObj xs) \<Longrightarrow> heap w1 a = Some (ListObj xs)"
    using store_msg_keeps [of s n m v w a xs] sm by simp_all
  show ?case
  proof (cases r)
    case (Inl e)
    then show ?thesis using sm k by simp
  next
    case (Inr u)
    then show ?thesis using sm k Cons.IH [of w1] by simp
  qed
qed

lemma for_stores_returns:
  "\<forall>s\<in>set ss. sink_returns w s \<Longrightarrow>
     fst (for_stores ss n m v w) = Inr () \<and>
     store_calls (snd (for_stores ss n m v w)) = store_calls w @ map (\<lambda>s. (s, n, m, v)) ss"
proof (induction ss arbitrary: w)
  case Nil
  then show ?case by simp
next
  case (Cons s ss)
  obtain r w1 where sm: "store_msg s n m v w = (r, w1)" by (cases "store_msg s n m v w")
  have s: "sink_returns w s" using Cons.prems by simp
  have r: "r = Inr ()" using store_msg_returns(1) [OF s, of n m v] sm by simp
  have c: "store_calls w1 = store_calls w @ [(s, n, m, v)]"
    using store_msg_returns(2) [OF s, of n m v] sm by simp
  have "\<forall>x\<in>set ss. sink_returns w1 x"
    using store_msg_returns(3) [OF s, of _ n m v] sm Cons.prems by simp
  from Cons.IH [OF this] show ?case using sm r c by simp
qed

lemma for_stores_same_but:
  "same_but r w w' \<Longrightarrow> r \<notin> set ss \<Longrightarrow>
     fst (for_stores ss n m v w) = fst (for_stores ss n m v w') \<and>
     same_but r (snd (for_stores ss n m v w)) (snd (for_stores ss n m v w'))"
proof (induction ss arbitrary: w w')
  case Nil
  then show ?case by simp
next
  case (Cons s ss)
  obtain r1 w1 where sm: "store_msg s n m v w = (r1, w1)" by (cases "store_msg s n m v w")
  obtain r2 w2 where sm': "store_msg s n m v w' = (r2, w2)" by (cases "store_msg s n m v w'")
  have sr: "s \<noteq> r" using Cons.prems(2) by auto
  have eq: "r1 = r2" "same_but r w1 w2"
    using store_msg_same_but [OF Cons.prems(1) sr, of n m v] sm sm' by simp_all
  show ?case
  proof (cases r1)
    case (Inl e)
    have r2: "r2 = Inl e" using eq(1) Inl by simp
    show ?thesis using eq(2) by (simp add: sm sm' Inl r2)
  next
    case (Inr u)
    have r2: "r2 = Inr u" using eq(1) Inr by simp
    have "r \<notin> set ss" using Cons.prems(2) by simp
    from Cons.IH [OF eq(2) this] show ?thesis by (simp add: sm sm' Inr r2)
  qed
qed

lemma failure_logged:
  assumes "\<forall>x\<in>set before. sink_returns w x" "s \<notin> set before"
    "heap w s = Some (InfluxStoreObj (InfluxDBClient (WriteFails (ConnectionError d) # ps) wr))"
  shows "Log ''forwarder.InfluxStore'' ERROR (Exc (ConnectionError d))
           \<in> set (trace (snd (for_stores (before @ s # later) n m v w)))"
proof -
  obtain wA where A: "for_stores before n m v w = (Inr (), wA)"
    using for_stores_returns [OF assms(1), of n m v] by (cases "for_stores before n m v w") auto
  have hA: "heap wA s = Some (InfluxStoreObj (InfluxDBClient (WriteFails (ConnectionError d) # ps) wr))"
    using for_stores_frame [OF assms(2), of n m v w] A assms(3) by simp
  obtain wB where B: "store_msg s n m v wA = (Inr (), wB)"
    and tB: "Log ''forwarder.InfluxStore'' ERROR (Exc (ConnectionError d)) \<in> set (trace wB)"
    by (simp add: store_msg_influx [OF hA])
  obtain es where "trace (snd (for_stores later n m v wB)) = trace wB @ es"
    using for_stores_trace by blast
  then show ?thesis using A B tB by (simp add: for_stores_append)
qed

section \<open>The handler, case by case\<close>

lemma on_message_unmatched:
  "re_match regex (topic msg) = None \<Longrightarrow>
     on_message self msg w =
       (Inr (), w\<lparr>trace := trace w @
          [Log ''forwarder.MQTTSource'' DEBUG
             (Fmt ''Received MQTT message for topic %s with payload %s''
                [PyStr (topic msg), PyStr (payload msg)]),
           Log ''forwarder.MQTTSource'' WARNING
             (Fmt ''Could not extract node name or measurement name from topic %s''
                [PyStr (topic msg)])]\<rparr>)"
  by (simp add: on_message_def logger_call_def)

lemma on_message_matched:
  assumes "re_match regex (topic msg) = Some g"
    "match_group g ''node_name'' \<in> set (node_names self)"
    "stores_attr self = Some l" "heap w l = Some (ListObj ss)"
  shows "on_message self msg w =
     for_stores ss (match_group g ''node_name'') (match_group g ''measurement_name'') (coerce (payload msg))
       (w\<lparr>trace := trace w @
            [Log ''forwarder.MQTTSource'' DEBUG
               (Fmt ''Received MQTT message for topic %s with payload %s''
                  [PyStr (topic msg), PyStr (payload msg)])],
          heap := (heap w)(nxt w \<mapsto> ListObj ss), nxt := Suc (nxt w)\<rparr>)"
  using assms
  by (simp add: on_message_def logger_call_def stores_def alloc_def list_contents_def Let_def)

lemma on_message_unconfigured:
  assumes "re_match regex (topic msg) = Some g"
    "match_group g ''node_name'' \<notin> set (node_names self)"
  shows "on_message self msg w =
     (Inl (AttributeError ''node_name''),
       w\<lparr>trace := trace w @
            [Log ''forwarder.MQTTSource'' DEBUG
               (Fmt ''Received MQTT message for topic %s with payload %s''
                  [PyStr (topic msg), PyStr (payload msg)])]\<rparr>)"
  using assms by (simp add: on_message_def logger_call_def Let_def)

lemma on_message_no_stores:
  assumes "re_match regex (topic msg) = Some g"
    "match_group g ''node_name'' \<in> set (node_names self)"
    "stores_attr self = None"
  shows "on_message self msg w =
     (Inl (AttributeError ''_stores''),
       w\<lparr>trace := trace w @
            [Log ''forwarder.MQTTSource'' DEBUG
               (Fmt ''Received MQTT message for topic %s with payload %s''
                  [PyStr (topic msg), PyStr (payload msg)])]\<rparr>)"
  using assms by (simp add: on_message_def logger_call_def stores_def Let_def)

lemma on_message_bad_stores:
  assumes "re_match regex (topic msg) = Some g"
    "match_group g ''node_name'' \<in> set (node_names self)"
    "stores_attr self = Some l" "\<not> (\<exists>xs. heap w l = Some (ListObj xs))"
  shows "on_message self msg w =
     (Inl (TypeError ''object is not iterable''),
       w\<lparr>trace := trace w @
            [Log ''forwarder.MQTTSource'' DEBUG
               (Fmt ''Received MQTT message for topic %s with payload %s''
                  [PyStr (topic msg), PyStr (payload msg)])]\<rparr>)"
  using assms
  by (auto simp: on_message_def logger_call_def stores_def Let_def split: option.split obj.split)

lemma on_message_calls:
  "\<exists>n m ss. store_calls (snd (on_message self msg w)) =
     store_calls w @ map (\<lambda>s. (s, n, m, coerce (payload msg))) ss"
proof (cases "re_match regex (topic msg)")
  case None
  then show ?thesis
    by (intro exI [of _ "[]"]) (simp add: on_message_unmatched store_calls_def invocations_append)
next
  case (Some g)
  show ?thesis
  proof (cases "match_group g ''node_name'' \<in> set (node_names self)")
    case False
    then show ?thesis using Some
      by (intro exI [of _ "[]"])
        (simp add: on_message_unconfigured store_calls_def invocations_append)
  next
    case True
    show ?thesis
    proof (cases "stores_attr self")
      case None
      then show ?thesis using Some True
        by (intro exI [of _ "[]"])
          (simp add: on_message_no_stores store_calls_def invocations_append)
    next
      case (Some l)
      show ?thesis
      proof (cases "\<exists>xs. heap w l = Some (ListObj xs)")
        case False
        then show ?thesis using \<open>re_match regex (topic msg) = Some g\<close> True Some
          by (intro exI [of _ "[]"])
            (simp add: on_message_bad_stores store_calls_def invocations_append)
      next
        case True
        then obtain xs where xs: "heap w l = Some (ListObj xs)" by blast
        let ?w1 = "w\<lparr>trace := trace w @
            [Log ''forwarder.MQTTSource'' DEBUG
               (Fmt ''Received MQTT message for topic %s with payload %s''
                  [PyStr (topic msg), PyStr (payload msg)])],
          heap := (heap w)(nxt w \<mapsto> ListObj xs), nxt := Suc (nxt w)\<rparr>"
        let ?n = "match_group g ''node_name''" and ?m = "match_group g ''measurement_name''"
        have om: "on_message self msg w = for_stores xs ?n ?m (coerce (payload msg)) ?w1"
          using on_message_matched [OF \<open>re_match regex (topic msg) = Some g\<close>
              \<open>match_group g ''node_name'' \<in> set (node_names self)\<close> Some xs] .
        have c1: "store_calls ?w1 = store_calls w"
          by (simp add: store_calls_def invocations_append)
        from for_stores_calls [of xs ?n ?m "coerce (payload msg)" ?w1]
        obtain k where "store_calls (snd (for_stores xs ?n ?m (coerce (payload msg)) ?w1)) =
            store_calls ?w1 @ map (\<lambda>s. (s, ?n, ?m, coerce (payload msg))) (take k xs)" by blast
        then show ?thesis unfolding om c1 by blast
      qed
    qed
  qed
qed

section \<open>Registration and the reachable states\<close>

lemma register_store_fresh:
  "stores_attr self = None \<Longrightarrow>
     register_store s self w =
       (Inr (), self\<lparr>stores_attr := Some (nxt w)\<rparr>,
        w\<lparr>heap := (heap w)(nxt w \<mapsto> ListObj [s]), nxt := Suc (nxt w)\<rparr>)"
  by (simp add: register_store_def alloc_def Let_def)

lemma register_store_next:
  "stores_attr self = Some l \<Longrightarrow> heap w l = Some (ListObj xs) \<Longrightarrow>
     register_store s self w = (Inr (), self, w\<lparr>heap := (heap w)(l \<mapsto> ListObj (xs @ [s]))\<rparr>)"
  by (simp add: register_store_def Let_def)

lemma register_all_next:
  "stores_attr self = Some l \<Longrightarrow> heap w l = Some (ListObj xs) \<Longrightarrow>
     register_all ss self w = (Inr (), self, w\<lparr>heap := (heap w)(l \<mapsto> ListObj (xs @ ss))\<rparr>)"
proof (induction ss arbitrary: w xs)
  case Nil
  then have "(heap w)(l \<mapsto> ListObj xs) = heap w" by (simp add: fun_upd_idem)
  then show ?case by simp
next
  case (Cons s ss)
  let ?w1 = "w\<lparr>heap := (heap w)(l \<mapsto> ListObj (xs @ [s]))\<rparr>"
  have "heap ?w1 l = Some (ListObj (xs @ [s]))" by simp
  note ih = Cons.IH [OF Cons.prems(1) this]
  have eqw: "?w1\<lparr>heap := (heap ?w1)(l \<mapsto> ListObj ((xs @ [s]) @ ss))\<rparr> =
      w\<lparr>heap := (heap w)(l \<mapsto> ListObj (xs @ s # ss))\<rparr>"
    by (rule world.equality) simp_all
  show ?case
    by (simp only: register_all.simps register_store_next [OF Cons.prems] ih eqw
        prod.case sum.case)
qed

lemma register_all_fresh:
  assumes "stores_attr self = None" "ss \<noteq> []"
  shows "register_all ss self w =
       (Inr (), self\<lparr>stores_attr := Some (nxt w)\<rparr>,
        w\<lparr>heap := (heap w)(nxt w \<mapsto> ListObj ss), nxt := Suc (nxt w)\<rparr>)"
proof -
  obtain s rest where ss: "ss = s # rest" using assms(2) by (cases ss) auto
  let ?self1 = "self\<lparr>stores_attr := Some (nxt w)\<rparr>"
  let ?w1 = "w\<lparr>heap := (heap w)(nxt w \<mapsto> ListObj [s]), nxt := Suc (nxt w)\<rparr>"
  have ran: "register_all rest ?self1 ?w1 =
      (Inr (), ?self1, ?w1\<lparr>heap := (heap ?w1)(nxt w \<mapsto> ListObj ([s] @ rest))\<rparr>)"
    by (rule register_all_next) simp_all
  have eqw: "?w1\<lparr>heap := (heap ?w1)(nxt w \<mapsto> ListObj ([s] @ rest))\<rparr> =
      w\<lparr>heap := (heap w)(nxt w \<mapsto> ListObj (s # rest)), nxt := Suc (nxt w)\<rparr>"
    by (rule world.equality) simp_all
  show ?thesis
    unfolding ss
    by (simp only: register_all.simps register_store_fresh [OF assms(1)] ran eqw
        prod.case sum.case)
qed

lemma well_formed_init: "well_formed (mqtt_source_init h p names) w"
  by (simp add: well_formed_def mqtt_source_init_def)

lemma well_formed_new_influx_store:
  "well_formed self w \<Longrightarrow> well_formed self (snd (new_influx_store outcomes w)) \<and>
     registered self (snd (new_influx_store outcomes w)) = registered self w \<and>
     fst (new_influx_store outcomes w) < nxt (snd (new_influx_store outcomes w))"
  by (auto simp: well_formed_def new_influx_store_def alloc_def registered_def list_contents_def
      list_all_iff less_Suc_eq split: option.splits obj.splits)

lemma well_formed_register_store:
  assumes "well_formed self w" "s < nxt w"
  shows "fst (register_store s self w) = Inr ()"
    "well_formed (fst (snd (register_store s self w))) (snd (snd (register_store s self w)))"
    "registered (fst (snd (register_store s self w))) (snd (snd (register_store s self w))) =
       registered self w @ [s]"
proof -
  have "fst (register_store s self w) = Inr () \<and>
    well_formed (fst (snd (register_store s self w))) (snd (snd (register_store s self w))) \<and>
    registered (fst (snd (register_store s self w))) (snd (snd (register_store s self w))) =
       registered self w @ [s]"
  proof (cases "stores_attr self")
    case None
    then show ?thesis using assms(2)
      by (simp add: register_store_fresh well_formed_def registered_def list_contents_def)
  next
    case (Some l)
    then obtain xs where xs: "heap w l = Some (ListObj xs)" and b: "l < nxt w"
      "list_all (\<lambda>s. s < nxt w) xs"
      using assms(1) by (auto simp: well_formed_def split: option.splits obj.splits)
    show ?thesis using Some xs b assms(2)
      by (simp add: register_store_next [OF Some xs] well_formed_def registered_def
          list_contents_def)
  qed
  then show "fst (register_store s self w) = Inr ()"
    "well_formed (fst (snd (register_store s self w))) (snd (snd (register_store s self w)))"
    "registered (fst (snd (register_store s self w))) (snd (snd (register_store s self w))) =
       registered self w @ [s]" by simp_all
qed

lemma well_formed_stores:
  "well_formed self w \<Longrightarrow> well_formed self (snd (stores self w)) \<and>
     registered self (snd (stores self w)) = registered self w"
  by (auto simp: well_formed_def stores_def alloc_def registered_def list_contents_def
      list_all_iff less_Suc_eq split: option.splits obj.splits)

lemma well_formed_on_message:
  assumes "well_formed self w"
  shows "well_formed self (snd (on_message self msg w)) \<and>
    registered self (snd (on_message self msg w)) = registered self w"
proof (cases "stores_attr self")
  case None
  then show ?thesis by (simp add: well_formed_def registered_def)
next
  case (Some l)
  then obtain xs where xs: "heap w l = Some (ListObj xs)" and b: "l < nxt w"
    "list_all (\<lambda>s. s < nxt w) xs"
    using assms(1) by (auto simp: well_formed_def split: option.splits obj.splits)
  have goal: "heap w' l = Some (ListObj xs) \<Longrightarrow> nxt w \<le> nxt w' \<Longrightarrow>
    well_formed self w' \<and> registered self w' = registered self w" for w'
    using Some xs b
    by (auto simp: well_formed_def registered_def list_contents_def list_all_iff)
  show ?thesis
  proof (cases "re_match regex (topic msg)")
    case None
    then show ?thesis using xs by (intro goal) (simp_all add: on_message_unmatched)
  next
    case g: (Some g)
    show ?thesis
    proof (cases "match_group g ''node_name'' \<in> set (node_names self)")
      case False
      then show ?thesis using g xs by (intro goal) (simp_all add: on_message_unconfigured)
    next
      case True
      let ?w1 = "w\<lparr>trace := trace w @
            [Log ''forwarder.MQTTSource'' DEBUG
               (Fmt ''Received MQTT message for topic %s with payload %s''
                  [PyStr (topic msg), PyStr (payload msg)])],
          heap := (heap w)(nxt w \<mapsto> ListObj xs), nxt := Suc (nxt w)\<rparr>"
      have om: "on_message self msg w =
          for_stores xs (match_group g ''node_name'') (match_group g ''measurement_name'')
            (coerce (payload msg)) ?w1"
        using on_message_matched [OF g True Some xs] .
      have "heap ?w1 l = Some (ListObj xs)" using xs b by simp
      then show ?thesis unfolding om
        using for_stores_keeps [of xs "match_group g ''node_name''"
            "match_group g ''measurement_name''" "coerce (payload msg)" ?w1 l xs]
        by (intro goal) simp_all
    qed
  qed
qed

section \<open>Evaluation of the scenarios\<close>

lemmas eval_defs = deliver_def deployment_def deliver_to_def deployment_of_def world0_def
  new_influx_store_def new_other_store_def alloc_def
  mqtt_source_init_def register_store_def on_message_def stores_def list_contents_def
  logger_call_def store_msg_def influx_store_msg_def write_points_def influx_msg_def
  match_group_def coerce_def store_calls_def re_match_regex is_word_def Let_def

lemmas float_defs = py_float_def strtod_def parse_sign_def parse_exponent_def scale10_def
  parse_inf_or_nan_def is_space_def is_digit_def digits_value_def lower_def

section \<open>Topic parsing\<close>

text \<open>
  C1, as stated: a topic of the shape \<^verbatim>\<open>/<node>/<measurement>\<close> or
  \<^verbatim>\<open>/<node>/<measurement>/<anything>\<close> gives the record its node and measurement, and
  a topic of any other shape gives no record and no sink invocation. The second half
  fails: the pattern is matched at the start of the topic only, so
  \<^verbatim>\<open>/kitchen/temp-1\<close>, which has not that shape, is parsed as node
  \<^verbatim>\<open>kitchen\<close> and measurement \<^verbatim>\<open>temp\<close> and stored.
\<close>

theorem unshaped_topic_stored:
  "\<not> spec_topic_shape ''/kitchen/temp-1'' \<and>
   store_calls (snd (deliver [''kitchen''] [[]]
          \<lparr>topic = ''/kitchen/temp-1'', payload = ''19.0''\<rparr>))
     = [(0, ''kitchen'', ''temp'', PyFloat (Finite 19))]"
  by (simp add: spec_topic_shape_def eval_defs float_defs)

text \<open>
  C1, amended: a topic that starts with a slash, a node of word characters, a slash and a
  measurement of word characters, the measurement being followed by nothing or by a
  character that is not a word character, is parsed into exactly that node and that
  measurement, and with the node configured they are the names the loop over the sinks
  hands to \<^verbatim>\<open>store_msg\<close>; a topic that does not start with a slash, word
  characters, a slash and a word character gives no record: the handler logs a warning
  and returns, and no sink is invoked.
\<close>

theorem topic_prefix_parsed:
  "(n \<noteq> [] \<and> list_all is_word n \<and> m \<noteq> [] \<and> list_all is_word m \<and>
      (rest = [] \<or> \<not> is_word (hd rest)) \<longrightarrow>
      re_match regex (CHR ''/'' # n @ CHR ''/'' # m @ rest) =
        Some [(''node_name'', n), (''measurement_name'', m)] \<and>
      (n \<in> set (node_names self) \<and> stores_attr self = Some l \<and> heap w l = Some (ListObj ss) \<longrightarrow>
         (\<exists>w1. on_message self \<lparr>topic = CHR ''/'' # n @ CHR ''/'' # m @ rest, payload = p\<rparr> w =
                 for_stores ss n m (coerce p) w1 \<and> store_calls w1 = store_calls w)))
   \<and> (\<not> (\<exists>n m rest. t = CHR ''/'' # n @ CHR ''/'' # m @ rest \<and>
            n \<noteq> [] \<and> list_all is_word n \<and> m \<noteq> [] \<and> list_all is_word m) \<longrightarrow>
        fst (on_message self \<lparr>topic = t, payload = p\<rparr> w) = Inr () \<and>
        store_calls (snd (on_message self \<lparr>topic = t, payload = p\<rparr> w)) = store_calls w \<and>
        trace (snd (on_message self \<lparr>topic = t, payload = p\<rparr> w)) = trace w @
          [Log ''forwarder.MQTTSource'' DEBUG
             (Fmt ''Received MQTT message for topic %s with payload %s'' [PyStr t, PyStr p]),
           Log ''forwarder.MQTTSource'' WARNING
             (Fmt ''Could not extract node name or measurement name from topic %s'' [PyStr t])])"
proof (intro conjI impI)
  assume a: "n \<noteq> [] \<and> list_all is_word n \<and> m \<noteq> [] \<and> list_all is_word m \<and>
      (rest = [] \<or> \<not> is_word (hd rest))"
  then show rm: "re_match regex (CHR ''/'' # n @ CHR ''/'' # m @ rest) =
        Some [(''node_name'', n), (''measurement_name'', m)]"
    using re_match_prefix by blast
  assume b: "n \<in> set (node_names self) \<and> stores_attr self = Some l \<and> heap w l = Some (ListObj ss)"
  let ?msg = "\<lparr>topic = CHR ''/'' # n @ CHR ''/'' # m @ rest, payload = p\<rparr>"
  have "on_message self ?msg w = for_stores ss n m (coerce p)
       (w\<lparr>trace := trace w @
            [Log ''forwarder.MQTTSource'' DEBUG
               (Fmt ''Received MQTT message for topic %s with payload %s''
                  [PyStr (topic ?msg), PyStr (payload ?msg)])],
          heap := (heap w)(nxt w \<mapsto> ListObj ss), nxt := Suc (nxt w)\<rparr>)"
    using on_message_matched [of ?msg "[(''node_name'', n), (''measurement_name'', m)]" self l w ss]
      rm b by (simp add: match_group_def)
  then show "\<exists>w1. on_message self ?msg w = for_stores ss n m (coerce p) w1 \<and>
      store_calls w1 = store_calls w"
    by (intro exI conjI, assumption) (simp add: store_calls_def invocations_append)
next
  assume "\<not> (\<exists>n m rest. t = CHR ''/'' # n @ CHR ''/'' # m @ rest \<and>
            n \<noteq> [] \<and> list_all is_word n \<and> m \<noteq> [] \<and> list_all is_word m)"
  then have none: "re_match regex (topic \<lparr>topic = t, payload = p\<rparr>) = None"
    using re_match_None_iff [of t] by simp
  note om = on_message_unmatched [OF none, of self w]
  show "fst (on_message self \<lparr>topic = t, payload = p\<rparr> w) = Inr ()" by (simp add: om)
  show "store_calls (snd (on_message self \<lparr>topic = t, payload = p\<rparr> w)) = store_calls w"
    by (simp add: om store_calls_def invocations_append)
  show "trace (snd (on_message self \<lparr>topic = t, payload = p\<rparr> w)) = trace w @
          [Log ''forwarder.MQTTSource'' DEBUG
             (Fmt ''Received MQTT message for topic %s with payload %s'' [PyStr t, PyStr p]),
           Log ''forwarder.MQTTSource'' WARNING
             (Fmt ''Could not extract node name or measurement name from topic %s'' [PyStr t])]"
    by (simp add: om)
qed

theorem topic_prefix_parsed_witness:
  "re_match regex ''/kitchen/temperature/x-y'' =
      Some [(''node_name'', ''kitchen''), (''measurement_name'', ''temperature'')] \<and>
   (\<exists>w1. on_message (fst (deployment [''kitchen''] [[]]))
            \<lparr>topic = ''/kitchen/temperature/x-y'', payload = ''19.0''\<rparr>
            (snd (deployment [''kitchen''] [[]])) =
          for_stores [0] ''kitchen'' ''temperature'' (coerce ''19.0'') w1 \<and>
          store_calls w1 = store_calls (snd (deployment [''kitchen''] [[]]))) \<and>
   fst (on_message (fst (deployment [''kitchen''] [[]]))
          \<lparr>topic = ''bad-topic'', payload = ''19.0''\<rparr> (snd (deployment [''kitchen''] [[]]))) = Inr () \<and>
   store_calls (snd (on_message (fst (deployment [''kitchen''] [[]]))
          \<lparr>topic = ''bad-topic'', payload = ''19.0''\<rparr> (snd (deployment [''kitchen''] [[]]))))
     = store_calls (snd (deployment [''kitchen''] [[]]))"
proof -
  have d: "node_names (fst (deployment [''kitchen''] [[]])) = [''kitchen'']"
    "stores_attr (fst (deployment [''kitchen''] [[]])) = Some 1"
    "heap (snd (deployment [''kitchen''] [[]])) 1 = Some (ListObj [0])"
    by (simp_all add: eval_defs)
  have h1: "''kitchen'' \<noteq> [] \<and> list_all is_word ''kitchen'' \<and> ''temperature'' \<noteq> [] \<and>
     list_all is_word ''temperature'' \<and> (''/x-y'' = [] \<or> \<not> is_word (hd ''/x-y''))"
    by (simp add: is_word_def)
  have h2: "\<not> (\<exists>n m rest. ''bad-topic'' = CHR ''/'' # n @ CHR ''/'' # m @ rest \<and>
            n \<noteq> [] \<and> list_all is_word n \<and> m \<noteq> [] \<and> list_all is_word m)"
    by simp
  show ?thesis
    using topic_prefix_parsed [of "''kitchen''" "''temperature''" "''/x-y''"
        "fst (deployment [''kitchen''] [[]])" 1 "snd (deployment [''kitchen''] [[]])" "[0]"
        "''19.0''" "''bad-topic''"] h1 h2 d
    by simp
qed

section \<open>The node name that is not configured\<close>

text \<open>
  C2. The claim: a message whose topic parses but whose node name is not configured is
  logged with a warning and still forwarded, so that with the configured nodes
  \<^verbatim>\<open>["living-room"]\<close> the topic \<^verbatim>\<open>/kitchen/temperature\<close> with payload
  \<^verbatim>\<open>"19.0"\<close> reaches the sink. The code at that input: the handler raises
  \<^verbatim>\<open>AttributeError\<close> for \<^verbatim>\<open>self.node_name\<close>, no sink is invoked, and the only
  logger call is the debug line at the start of the handler, no warning.
\<close>

theorem unconfigured_node_raises:
  "fst (deliver [''living-room''] [[]]
          \<lparr>topic = ''/kitchen/temperature'', payload = ''19.0''\<rparr>)
     = Inl (AttributeError ''node_name'') \<and>
   store_calls (snd (deliver [''living-room''] [[]]
          \<lparr>topic = ''/kitchen/temperature'', payload = ''19.0''\<rparr>)) = [] \<and>
   trace (snd (deliver [''living-room''] [[]]
          \<lparr>topic = ''/kitchen/temperature'', payload = ''19.0''\<rparr>))
     = [Log ''forwarder.MQTTSource'' DEBUG
          (Fmt ''Received MQTT message for topic %s with payload %s''
             [PyStr ''/kitchen/temperature'', PyStr ''19.0''])]"
  by (simp add: eval_defs float_defs)

section \<open>The end-to-end scenario\<close>

text \<open>
  C3, as stated: with the configured nodes \<^verbatim>\<open>["living-room"]\<close> and one sink, the topic
  \<^verbatim>\<open>/living-room/temperature\<close> with payload \<^verbatim>\<open>"21.5"\<close> gives one invocation
  \<^verbatim>\<open>store_msg("living-room", "temperature", 21.5)\<close>. It does not: the hyphen is not a
  word character, the topic does not match, and the handler returns with no sink invoked.
\<close>

theorem hyphenated_node_not_stored:
  "store_calls (snd (deliver [''living-room''] [[]]
          \<lparr>topic = ''/living-room/temperature'', payload = ''21.5''\<rparr>))
     \<noteq> [(0, ''living-room'', ''temperature'', PyFloat (Finite 21.5))] \<and>
   store_calls (snd (deliver [''living-room''] [[]]
          \<lparr>topic = ''/living-room/temperature'', payload = ''21.5''\<rparr>)) = [] \<and>
   fst (deliver [''living-room''] [[]]
          \<lparr>topic = ''/living-room/temperature'', payload = ''21.5''\<rparr>) = Inr ()"
  by (simp add: eval_defs float_defs)

text \<open>
  C3, amended: with a node name of word characters, \<^verbatim>\<open>living_room\<close>, configured and
  one sink registered, the topic \<^verbatim>\<open>/living_room/temperature\<close> with payload
  \<^verbatim>\<open>"21.5"\<close> causes exactly one invocation of the sink's \<^verbatim>\<open>store_msg\<close>, with the
  arguments \<^verbatim>\<open>("living_room", "temperature", 21.5)\<close>, the value a float; the handler
  returns.
\<close>

theorem word_node_stored_once:
  "store_calls (snd (deliver [''living_room''] [[]]
          \<lparr>topic = ''/living_room/temperature'', payload = ''21.5''\<rparr>))
     = [(0, ''living_room'', ''temperature'', PyFloat (Finite 21.5))] \<and>
   fst (deliver [''living_room''] [[]]
          \<lparr>topic = ''/living_room/temperature'', payload = ''21.5''\<rparr>) = Inr ()"
  by (simp add: eval_defs float_defs)

section \<open>Fan-out\<close>

text \<open>
  C4, as stated: for every number of registered sinks and every message whose topic
  parses, each sink is invoked once, in registration order. It fails when a sink raises:
  the loop has no handler of its own, so with two sinks of which the first has its write
  rejected by the storage backend, the exception leaves the loop and the second sink is
  never invoked.
\<close>

theorem raising_sink_ends_loop:
  "re_match regex ''/kitchen/temperature'' \<noteq> None \<and>
   registered (fst (deployment [''kitchen''] [[WriteFails (InfluxDBClientError ''401'')], []]))
              (snd (deployment [''kitchen''] [[WriteFails (InfluxDBClientError ''401'')], []])) = [0, 1] \<and>
   store_calls (snd (deliver [''kitchen''] [[WriteFails (InfluxDBClientError ''401'')], []]
          \<lparr>topic = ''/kitchen/temperature'', payload = ''19.0''\<rparr>))
     = [(0, ''kitchen'', ''temperature'', PyFloat (Finite 19))] \<and>
   fst (deliver [''kitchen''] [[WriteFails (InfluxDBClientError ''401'')], []]
          \<lparr>topic = ''/kitchen/temperature'', payload = ''19.0''\<rparr>)
     = Inl (InfluxDBClientError ''401'')"
  by (simp add: eval_defs float_defs registered_def)

text \<open>
  C4, amended: on a new source, register any list of sinks (a sink may occur several
  times) each of which returns from \<^verbatim>\<open>store_msg\<close>, and deliver a message whose topic
  parses and whose node name is configured. Then all the registrations succeed, the
  registered sinks are that list, and the handler invokes \<^verbatim>\<open>store_msg\<close> once for
  each element of the list, in the order of registration and with the same node name,
  measurement name and value each time: a sink registered twice is invoked twice. With at
  least one sink registered the handler returns.
\<close>

theorem fan_out:
  assumes "stores_attr self = None"
    and "\<forall>s\<in>set sinks. s < nxt w \<and> sink_returns w s"
    and "re_match regex (topic msg) = Some g"
    and "match_group g ''node_name'' \<in> set (node_names self)"
  shows "fst (register_all sinks self w) = Inr () \<and>
     registered (fst (snd (register_all sinks self w))) (snd (snd (register_all sinks self w)))
       = sinks \<and>
     store_calls (snd (on_message (fst (snd (register_all sinks self w))) msg
                         (snd (snd (register_all sinks self w))))) =
       store_calls w @ map (\<lambda>s. (s, match_group g ''node_name'',
                                    match_group g ''measurement_name'',
                                    coerce (payload msg))) sinks \<and>
     (sinks \<noteq> [] \<longrightarrow>
        fst (on_message (fst (snd (register_all sinks self w))) msg
               (snd (snd (register_all sinks self w)))) = Inr ())"
proof (cases "sinks = []")
  case True
  then show ?thesis using assms
    by (simp add: registered_def on_message_no_stores store_calls_def invocations_append)
next
  case False
  let ?self1 = "self\<lparr>stores_attr := Some (nxt w)\<rparr>"
  let ?w1 = "w\<lparr>heap := (heap w)(nxt w \<mapsto> ListObj sinks), nxt := Suc (nxt w)\<rparr>"
  let ?n = "match_group g ''node_name''" and ?m = "match_group g ''measurement_name''"
  have ra: "register_all sinks self w = (Inr (), ?self1, ?w1)"
    using register_all_fresh [OF assms(1) False] .
  let ?w2 = "?w1\<lparr>trace := trace ?w1 @
            [Log ''forwarder.MQTTSource'' DEBUG
               (Fmt ''Received MQTT message for topic %s with payload %s''
                  [PyStr (topic msg), PyStr (payload msg)])],
          heap := (heap ?w1)(nxt ?w1 \<mapsto> ListObj sinks), nxt := Suc (nxt ?w1)\<rparr>"
  have om: "on_message ?self1 msg ?w1 = for_stores sinks ?n ?m (coerce (payload msg)) ?w2"
    by (rule on_message_matched [OF assms(3), of ?self1 "nxt w" ?w1 sinks])
      (use assms(4) in simp_all)
  have "\<forall>s\<in>set sinks. sink_returns ?w2 s"
    using assms(2) by (auto simp: sink_returns_def)
  from for_stores_returns [OF this, of ?n ?m "coerce (payload msg)"]
  have "fst (on_message ?self1 msg ?w1) = Inr ()"
    "store_calls (snd (on_message ?self1 msg ?w1)) =
       store_calls w @ map (\<lambda>s. (s, ?n, ?m, coerce (payload msg))) sinks"
    unfolding om by (simp_all add: store_calls_def invocations_append)
  then show ?thesis unfolding ra by (simp add: registered_def list_contents_def)
qed

theorem fan_out_witness:
  "store_calls (snd (on_message
       (fst (snd (register_all [0, 1, 0] (mqtt_source_init ''mqtt'' ''1883'' [''kitchen''])
          (snd (new_sinks [[], [WriteFails (ConnectionError ''refused'')]] world0)))))
       \<lparr>topic = ''/kitchen/temperature'', payload = ''19.0''\<rparr>
       (snd (snd (register_all [0, 1, 0] (mqtt_source_init ''mqtt'' ''1883'' [''kitchen''])
          (snd (new_sinks [[], [WriteFails (ConnectionError ''refused'')]] world0)))))))
     = [(0, ''kitchen'', ''temperature'', PyFloat (Finite 19)),
        (1, ''kitchen'', ''temperature'', PyFloat (Finite 19)),
        (0, ''kitchen'', ''temperature'', PyFloat (Finite 19))] \<and>
   fst (on_message
       (fst (snd (register_all [0, 1, 0] (mqtt_source_init ''mqtt'' ''1883'' [''kitchen''])
          (snd (new_sinks [[], [WriteFails (ConnectionError ''refused'')]] world0)))))
       \<lparr>topic = ''/kitchen/temperature'', payload = ''19.0''\<rparr>
       (snd (snd (register_all [0, 1, 0] (mqtt_source_init ''mqtt'' ''1883'' [''kitchen''])
          (snd (new_sinks [[], [WriteFails (ConnectionError ''refused'')]] world0)))))) = Inr ()"
proof -
  let ?w = "snd (new_sinks [[], [WriteFails (ConnectionError ''refused'')]] world0)"
  let ?self = "mqtt_source_init ''mqtt'' ''1883'' [''kitchen'']"
  let ?msg = "\<lparr>topic = ''/kitchen/temperature'', payload = ''19.0''\<rparr>"
  let ?g = "[(''node_name'', ''kitchen''), (''measurement_name'', ''temperature'')]"
  have h1: "stores_attr ?self = None" by (simp add: mqtt_source_init_def)
  have h2: "\<forall>s\<in>set [0, 1, 0]. s < nxt ?w \<and> sink_returns ?w s"
    by (simp add: sink_returns_def new_influx_store_def alloc_def world0_def)
  have h3: "re_match regex (topic ?msg) = Some ?g"
    by (simp add: re_match_regex is_word_def)
  have h4: "match_group ?g ''node_name'' \<in> set (node_names ?self)"
    by (simp add: match_group_def mqtt_source_init_def)
  have c: "coerce ''19.0'' = PyFloat (Finite 19)" "store_calls ?w = []"
    by (simp_all add: coerce_def float_defs store_calls_def new_influx_store_def alloc_def world0_def)
  show ?thesis
    using fan_out [OF h1 h2 h3 h4] c by (simp add: match_group_def)
qed

section \<open>The value of the record\<close>

text \<open>
  C5. Every invocation of \<^verbatim>\<open>store_msg\<close> that the handler makes for a message carries
  as its value the float that \<^verbatim>\<open>float\<close> makes of the payload, when it makes one
  (exponents and white space around the number included), and the payload as it came
  otherwise.
\<close>

theorem payload_coerced:
  "\<forall>c \<in> set (drop (length (store_calls w)) (store_calls (snd (on_message self msg w)))).
      snd (snd (snd c)) =
        (case py_float (payload msg) of Some x \<Rightarrow> PyFloat x | None \<Rightarrow> PyStr (payload msg))"
proof -
  obtain n m ss where "store_calls (snd (on_message self msg w)) =
     store_calls w @ map (\<lambda>s. (s, n, m, coerce (payload msg))) ss"
    using on_message_calls by blast
  then show ?thesis by (auto simp: coerce_def)
qed

theorem payload_coerced_witness:
  "store_calls (snd (deliver [''kitchen''] [[]]
      \<lparr>topic = ''/kitchen/temperature'', payload = '' 1.5e2 ''\<rparr>))
     = [(0, ''kitchen'', ''temperature'', PyFloat (Finite 150))] \<and>
   py_float '' 1.5e2 '' = Some (Finite 150) \<and>
   store_calls (snd (deliver [''kitchen''] [[]]
      \<lparr>topic = ''/kitchen/status'', payload = ''ok''\<rparr>))
     = [(0, ''kitchen'', ''status'', PyStr ''ok'')] \<and>
   py_float ''ok'' = None"
  using payload_coerced [of "snd (deployment [''kitchen''] [[]])"
      "fst (deployment [''kitchen''] [[]])"
      "\<lparr>topic = ''/kitchen/temperature'', payload = '' 1.5e2 ''\<rparr>"]
    payload_coerced [of "snd (deployment [''kitchen''] [[]])"
      "fst (deployment [''kitchen''] [[]])"
      "\<lparr>topic = ''/kitchen/status'', payload = ''ok''\<rparr>"]
  by (simp add: eval_defs float_defs)

section \<open>A connectivity failure of one sink\<close>

lemma dispatch_with_failure:
  assumes "well_formed self w" and "stores_attr self = Some l"
    and "heap w l = Some (ListObj (before @ s # later))"
    and "\<forall>x\<in>set (before @ s # later). sink_returns w x"
    and "s \<notin> set before"
    and "heap w s = Some (InfluxStoreObj (InfluxDBClient (WriteFails (ConnectionError d) # ps) wr))"
    and "re_match regex (topic msg) = Some g"
    and "match_group g ''node_name'' \<in> set (node_names self)"
  shows "fst (on_message self msg w) = Inr () \<and>
     store_calls (snd (on_message self msg w)) =
       store_calls w @ map (\<lambda>x. (x, match_group g ''node_name'',
                                    match_group g ''measurement_name'',
                                    coerce (payload msg))) (before @ s # later) \<and>
     Log ''forwarder.InfluxStore'' ERROR (Exc (ConnectionError d))
       \<in> set (trace (snd (on_message self msg w)))"
proof -
  let ?ss = "before @ s # later"
  let ?w1 = "w\<lparr>trace := trace w @
            [Log ''forwarder.MQTTSource'' DEBUG
               (Fmt ''Received MQTT message for topic %s with payload %s''
                  [PyStr (topic msg), PyStr (payload msg)])],
          heap := (heap w)(nxt w \<mapsto> ListObj ?ss), nxt := Suc (nxt w)\<rparr>"
  let ?n = "match_group g ''node_name''" and ?m = "match_group g ''measurement_name''"
  have om: "on_message self msg w = for_stores ?ss ?n ?m (coerce (payload msg)) ?w1"
    using on_message_matched [OF assms(7,8,2,3)] .
  have below: "\<forall>x\<in>set ?ss. x < nxt w"
    using assms(1,2,3) by (simp add: well_formed_def list_all_iff)
  have ret: "\<forall>x\<in>set ?ss. sink_returns ?w1 x"
    using assms(4) below by (auto simp: sink_returns_def)
  have hs: "heap ?w1 s = Some (InfluxStoreObj (InfluxDBClient (WriteFails (ConnectionError d) # ps) wr))"
    using assms(6) below by auto
  have ret_before: "\<forall>x\<in>set before. sink_returns ?w1 x" using ret by simp
  show ?thesis
    unfolding om
    using for_stores_returns [OF ret, of ?n ?m "coerce (payload msg)"]
      failure_logged [OF ret_before assms(5) hs, of later ?n ?m "coerce (payload msg)"]
    by (simp add: store_calls_def invocations_append)
qed

text \<open>
  C6, as stated: for every registration order of sinks and every message, when one sink
  raises a connectivity failure during its invocation, every sink registered after it is
  still invoked and the loop does not crash. It fails for a sink out of whose
  \<^verbatim>\<open>store_msg\<close> the failure comes: the loop of the handler has no handler of
  exceptions, so the failure leaves the loop and the handler, and the sink registered
  after it is never invoked.
\<close>

theorem escaping_failure_ends_loop:
  "registered
     (fst (deployment_of [''kitchen'']
        [OtherStoreObj [Raises (ConnectionError ''refused'')],
         InfluxStoreObj (InfluxDBClient [] [])]))
     (snd (deployment_of [''kitchen'']
        [OtherStoreObj [Raises (ConnectionError ''refused'')],
         InfluxStoreObj (InfluxDBClient [] [])])) = [0, 1] \<and>
   fst (deliver_to [''kitchen'']
        [OtherStoreObj [Raises (ConnectionError ''refused'')],
         InfluxStoreObj (InfluxDBClient [] [])]
        \<lparr>topic = ''/kitchen/temperature'', payload = ''19.0''\<rparr>)
     = Inl (ConnectionError ''refused'') \<and>
   store_calls (snd (deliver_to [''kitchen'']
        [OtherStoreObj [Raises (ConnectionError ''refused'')],
         InfluxStoreObj (InfluxDBClient [] [])]
        \<lparr>topic = ''/kitchen/temperature'', payload = ''19.0''\<rparr>))
     = [(0, ''kitchen'', ''temperature'', PyFloat (Finite 19))]"
  by (simp add: eval_defs float_defs registered_def)

text \<open>
  C6, amended: the connectivity failure that does not stop the loop is the one of the
  write of an \<^verbatim>\<open>InfluxStore\<close>, which the sink catches itself. When the write of
  such a sink fails with a connectivity failure during its invocation, the loop of the
  handler goes on: the rest of the loop is the loop over the sinks registered after it,
  started in the state the failing sink leaves, in which the failure is logged and no
  other object has changed. So for every list of registered sinks and every message that
  reaches the loop (its topic parses, its node name is configured), every sink returning
  from \<^verbatim>\<open>store_msg\<close>, every sink registered before and after the failing one is
  invoked with the same record, in order, and the handler returns.
\<close>

theorem later_sinks_still_invoked:
  assumes "heap w s =
     Some (InfluxStoreObj (InfluxDBClient (WriteFails (ConnectionError d) # ps) wr))"
  shows "(\<exists>w'. for_stores (s # later) n m v w = for_stores later n m v w' \<and>
            store_calls w' = store_calls w @ [(s, n, m, v)] \<and>
            trace w' = trace w @
              [StoreMsg s n m v,
               Log ''forwarder.InfluxStore'' DEBUG
                 (Fmt ''Writing InfluxDB point: %s'' [influx_msg n m v]),
               WritePoints s [influx_msg n m v],
               Log ''forwarder.InfluxStore'' ERROR (Exc (ConnectionError d))] \<and>
            (\<forall>a. a \<noteq> s \<longrightarrow> heap w' a = heap w a))
     \<and> (well_formed self w \<and> stores_attr self = Some l \<and>
          heap w l = Some (ListObj (before @ s # later)) \<and>
          (\<forall>x\<in>set (before @ s # later). sink_returns w x) \<and> s \<notin> set before \<and>
          re_match regex (topic msg) = Some g \<and>
          match_group g ''node_name'' \<in> set (node_names self) \<longrightarrow>
        fst (on_message self msg w) = Inr () \<and>
        store_calls (snd (on_message self msg w)) =
          store_calls w @ map (\<lambda>x. (x, match_group g ''node_name'',
                                       match_group g ''measurement_name'',
                                       coerce (payload msg))) (before @ s # later) \<and>
        Log ''forwarder.InfluxStore'' ERROR (Exc (ConnectionError d))
          \<in> set (trace (snd (on_message self msg w))))"
proof (intro conjI impI)
  let ?w' = "w\<lparr>heap := (heap w)(s \<mapsto> InfluxStoreObj (InfluxDBClient ps wr)),
               trace := trace w @
              [StoreMsg s n m v,
               Log ''forwarder.InfluxStore'' DEBUG
                 (Fmt ''Writing InfluxDB point: %s'' [influx_msg n m v]),
               WritePoints s [influx_msg n m v],
               Log ''forwarder.InfluxStore'' ERROR (Exc (ConnectionError d))]\<rparr>"
  have "store_msg s n m v w = (Inr (), ?w')"
    by (simp add: store_msg_influx [OF assms])
  then have "for_stores (s # later) n m v w = for_stores later n m v ?w'" by simp
  moreover have "store_calls ?w' = store_calls w @ [(s, n, m, v)]"
    by (simp add: store_calls_def invocations_append)
  ultimately show "\<exists>w'. for_stores (s # later) n m v w = for_stores later n m v w' \<and>
            store_calls w' = store_calls w @ [(s, n, m, v)] \<and>
            trace w' = trace w @
              [StoreMsg s n m v,
               Log ''forwarder.InfluxStore'' DEBUG
                 (Fmt ''Writing InfluxDB point: %s'' [influx_msg n m v]),
               WritePoints s [influx_msg n m v],
               Log ''forwarder.InfluxStore'' ERROR (Exc (ConnectionError d))] \<and>
            (\<forall>a. a \<noteq> s \<longrightarrow> heap w' a = heap w a)"
    by (intro exI [of _ ?w']) simp
next
  assume a: "well_formed self w \<and> stores_attr self = Some l \<and>
          heap w l = Some (ListObj (before @ s # later)) \<and>
          (\<forall>x\<in>set (before @ s # later). sink_returns w x) \<and> s \<notin> set before \<and>
          re_match regex (topic msg) = Some g \<and>
          match_group g ''node_name'' \<in> set (node_names self)"
  then have d: "fst (on_message self msg w) = Inr () \<and>
     store_calls (snd (on_message self msg w)) =
       store_calls w @ map (\<lambda>x. (x, match_group g ''node_name'',
                                    match_group g ''measurement_name'',
                                    coerce (payload msg))) (before @ s # later) \<and>
     Log ''forwarder.InfluxStore'' ERROR (Exc (ConnectionError d))
       \<in> set (trace (snd (on_message self msg w)))"
    using dispatch_with_failure [of self w l before s later d ps wr msg g] assms by blast
  from d show "fst (on_message self msg w) = Inr ()" by simp
  from d show "store_calls (snd (on_message self msg w)) =
          store_calls w @ map (\<lambda>x. (x, match_group g ''node_name'',
                                       match_group g ''measurement_name'',
                                       coerce (payload msg))) (before @ s # later)" by simp
  from d show "Log ''forwarder.InfluxStore'' ERROR (Exc (ConnectionError d))
          \<in> set (trace (snd (on_message self msg w)))" by simp
qed

theorem later_sinks_still_invoked_witness:
  "fst (deliver [''kitchen''] [[], [WriteFails (ConnectionError ''refused'')], []]
          \<lparr>topic = ''/kitchen/temperature'', payload = ''19.0''\<rparr>) = Inr () \<and>
   store_calls (snd (deliver [''kitchen''] [[], [WriteFails (ConnectionError ''refused'')], []]
          \<lparr>topic = ''/kitchen/temperature'', payload = ''19.0''\<rparr>))
     = [(0, ''kitchen'', ''temperature'', PyFloat (Finite 19)),
        (1, ''kitchen'', ''temperature'', PyFloat (Finite 19)),
        (2, ''kitchen'', ''temperature'', PyFloat (Finite 19))] \<and>
   Log ''forwarder.InfluxStore'' ERROR (Exc (ConnectionError ''refused''))
     \<in> set (trace (snd (deliver [''kitchen''] [[], [WriteFails (ConnectionError ''refused'')], []]
          \<lparr>topic = ''/kitchen/temperature'', payload = ''19.0''\<rparr>))) \<and>
   (\<exists>w'. for_stores [1, 2] ''kitchen'' ''temperature'' (PyFloat (Finite 19))
            (snd (deployment [''kitchen''] [[], [WriteFails (ConnectionError ''refused'')], []])) =
          for_stores [2] ''kitchen'' ''temperature'' (PyFloat (Finite 19)) w' \<and>
          store_calls w' = [(1, ''kitchen'', ''temperature'', PyFloat (Finite 19))])"
proof -
  let ?d = "deployment [''kitchen''] [[], [WriteFails (ConnectionError ''refused'')], []]"
  let ?msg = "\<lparr>topic = ''/kitchen/temperature'', payload = ''19.0''\<rparr>"
  let ?g = "[(''node_name'', ''kitchen''), (''measurement_name'', ''temperature'')]"
  have h1: "well_formed (fst ?d) (snd ?d)" by (simp add: eval_defs well_formed_def)
  have h2: "stores_attr (fst ?d) = Some 3" by (simp add: eval_defs)
  have h3: "heap (snd ?d) 3 = Some (ListObj ([0] @ 1 # [2]))" by (simp add: eval_defs)
  have h4: "\<forall>x\<in>set ([0] @ 1 # [2]). sink_returns (snd ?d) x"
    by (simp add: eval_defs sink_returns_def)
  have h5: "1 \<notin> set [0::nat]" by simp
  have h6: "heap (snd ?d) 1 = Some (InfluxStoreObj
      (InfluxDBClient (WriteFails (ConnectionError ''refused'') # []) []))"
    by (simp add: eval_defs)
  have h7: "re_match regex (topic ?msg) = Some ?g" by (simp add: re_match_regex is_word_def)
  have h8: "match_group ?g ''node_name'' \<in> set (node_names (fst ?d))" by (simp add: eval_defs)
  have c: "coerce (payload ?msg) = PyFloat (Finite 19)" "store_calls (snd ?d) = []"
    by (simp_all add: eval_defs float_defs)
  have d: "deliver [''kitchen''] [[], [WriteFails (ConnectionError ''refused'')], []] ?msg =
      on_message (fst ?d) ?msg (snd ?d)"
    by (simp add: deliver_def split: prod.split)
  note t = later_sinks_still_invoked [OF h6, of "[2]" "''kitchen''" "''temperature''"
      "PyFloat (Finite 19)" "fst ?d" 3 "[0]" ?msg ?g]
  from t have p1: "\<exists>w'. for_stores [1, 2] ''kitchen'' ''temperature'' (PyFloat (Finite 19)) (snd ?d) =
          for_stores [2] ''kitchen'' ''temperature'' (PyFloat (Finite 19)) w' \<and>
          store_calls w' = [(1, ''kitchen'', ''temperature'', PyFloat (Finite 19))]"
    using c(2) by auto
  from t h1 h2 h3 h4 h5 h7 h8
  have p2: "fst (on_message (fst ?d) ?msg (snd ?d)) = Inr () \<and>
        store_calls (snd (on_message (fst ?d) ?msg (snd ?d))) =
          store_calls (snd ?d) @ map (\<lambda>x. (x, match_group ?g ''node_name'',
                                       match_group ?g ''measurement_name'',
                                       coerce (payload ?msg))) ([0] @ 1 # [2]) \<and>
        Log ''forwarder.InfluxStore'' ERROR (Exc (ConnectionError ''refused''))
          \<in> set (trace (snd (on_message (fst ?d) ?msg (snd ?d))))"
    by blast
  show ?thesis
    unfolding d using p1 p2 c by (simp add: match_group_def)
qed

section \<open>The storage-backed sink\<close>

text \<open>
  C7. When the write of \<^verbatim>\<open>InfluxStore.store_msg\<close> raises a connectivity failure,
  the method catches it, logs it at error level and returns normally, and the point is
  discarded (the client has accepted nothing); when the write raises anything else, the
  exception is not caught and reaches the caller.
\<close>

theorem connectivity_failure_swallowed:
  assumes "heap w s = Some (InfluxStoreObj (InfluxDBClient (WriteFails e # ps) wr))"
  shows "(is_connection_error e \<longrightarrow>
            fst (influx_store_msg s n m v w) = Inr () \<and>
            trace (snd (influx_store_msg s n m v w)) = trace w @
              [Log ''forwarder.InfluxStore'' DEBUG
                 (Fmt ''Writing InfluxDB point: %s'' [influx_msg n m v]),
               WritePoints s [influx_msg n m v],
               Log ''forwarder.InfluxStore'' ERROR (Exc e)] \<and>
            heap (snd (influx_store_msg s n m v w)) s =
              Some (InfluxStoreObj (InfluxDBClient ps wr)))
       \<and> (\<not> is_connection_error e \<longrightarrow> fst (influx_store_msg s n m v w) = Inl e)"
  by (simp add: influx_store_msg_eq [OF assms])

theorem connectivity_failure_swallowed_witness:
  "fst (influx_store_msg 0 ''kitchen'' ''temperature'' (PyStr ''x'')
          (snd (new_influx_store [WriteFails (ConnectionError ''refused'')] world0))) = Inr () \<and>
   trace (snd (influx_store_msg 0 ''kitchen'' ''temperature'' (PyStr ''x'')
          (snd (new_influx_store [WriteFails (ConnectionError ''refused'')] world0)))) =
      [Log ''forwarder.InfluxStore'' DEBUG
         (Fmt ''Writing InfluxDB point: %s'' [influx_msg ''kitchen'' ''temperature'' (PyStr ''x'')]),
       WritePoints 0 [influx_msg ''kitchen'' ''temperature'' (PyStr ''x'')],
       Log ''forwarder.InfluxStore'' ERROR (Exc (ConnectionError ''refused''))] \<and>
   fst (influx_store_msg 0 ''kitchen'' ''temperature'' (PyStr ''x'')
          (snd (new_influx_store [WriteFails (InfluxDBClientError ''401'')] world0)))
     = Inl (InfluxDBClientError ''401'')"
proof -
  have h1: "heap (snd (new_influx_store [WriteFails (ConnectionError ''refused'')] world0)) 0 =
      Some (InfluxStoreObj (InfluxDBClient (WriteFails (ConnectionError ''refused'') # []) []))"
    by (simp add: new_influx_store_def alloc_def world0_def)
  have h2: "heap (snd (new_influx_store [WriteFails (InfluxDBClientError ''401'')] world0)) 0 =
      Some (InfluxStoreObj (InfluxDBClient (WriteFails (InfluxDBClientError ''401'') # []) []))"
    by (simp add: new_influx_store_def alloc_def world0_def)
  show ?thesis
    using connectivity_failure_swallowed [OF h1, of "''kitchen''" "''temperature''" "PyStr ''x''"]
      connectivity_failure_swallowed [OF h2, of "''kitchen''" "''temperature''" "PyStr ''x''"]
    by (simp add: new_influx_store_def alloc_def world0_def)
qed

text \<open>
  C9. For every call \<^verbatim>\<open>store_msg(node_name, measurement_name, value)\<close> on an
  \<^verbatim>\<open>InfluxStore\<close>, one batch of one point is handed to the client; the point has
  the measurement \<^verbatim>\<open>measurement_name\<close>, the single tag \<^verbatim>\<open>sensor_node\<close> with
  the node name, the single field \<^verbatim>\<open>value\<close> with the value, and no key
  \<^verbatim>\<open>time\<close>: its keys are \<^verbatim>\<open>measurement\<close>, \<^verbatim>\<open>tags\<close> and
  \<^verbatim>\<open>fields\<close>. When the write succeeds, that batch is what the client accepts.
\<close>

theorem point_written:
  assumes "heap w s = Some (InfluxStoreObj c)"
  shows "batches (trace (snd (influx_store_msg s n m v w))) =
            batches (trace w) @ [(s, [influx_msg n m v])] \<and>
         lookup (influx_msg n m v) ''measurement'' = Some (PyStr m) \<and>
         lookup (influx_msg n m v) ''tags'' = Some (PyDict [(''sensor_node'', PyStr n)]) \<and>
         lookup (influx_msg n m v) ''fields'' = Some (PyDict [(''value'', v)]) \<and>
         lookup (influx_msg n m v) ''time'' = None \<and>
         (\<exists>d. influx_msg n m v = PyDict d \<and> map fst d = [''measurement'', ''tags'', ''fields'']) \<and>
         (pending c = [] \<or> hd (pending c) = WriteOk \<longrightarrow>
            heap (snd (influx_store_msg s n m v w)) s =
              Some (InfluxStoreObj (InfluxDBClient (tl (pending c))
                                      (written c @ [[influx_msg n m v]]))))"
proof -
  obtain ps wr where c: "c = InfluxDBClient ps wr" by (cases c)
  have b: "batches (trace (snd (influx_store_msg s n m v w))) =
            batches (trace w) @ [(s, [influx_msg n m v])]"
    using assms c
    by (simp add: influx_store_msg_eq batches_append Let_def split: list.split outcome.split)
  have h: "pending c = [] \<or> hd (pending c) = WriteOk \<longrightarrow>
            heap (snd (influx_store_msg s n m v w)) s =
              Some (InfluxStoreObj (InfluxDBClient (tl (pending c))
                                      (written c @ [[influx_msg n m v]])))"
    using assms c
    by (auto simp: influx_store_msg_eq Let_def split: list.split outcome.split)
  show ?thesis using b h by (simp add: influx_msg_def)
qed

theorem point_written_witness:
  "batches (trace (snd (influx_store_msg 0 ''kitchen'' ''temperature'' (PyFloat (Finite 19))
       (snd (new_influx_store [] world0))))) =
     [(0, [PyDict [(''measurement'', PyStr ''temperature''),
                   (''tags'', PyDict [(''sensor_node'', PyStr ''kitchen'')]),
                   (''fields'', PyDict [(''value'', PyFloat (Finite 19))])]])] \<and>
   heap (snd (influx_store_msg 0 ''kitchen'' ''temperature'' (PyFloat (Finite 19))
       (snd (new_influx_store [] world0)))) 0 =
     Some (InfluxStoreObj (InfluxDBClient []
       [[PyDict [(''measurement'', PyStr ''temperature''),
                   (''tags'', PyDict [(''sensor_node'', PyStr ''kitchen'')]),
                   (''fields'', PyDict [(''value'', PyFloat (Finite 19))])]]]))"
proof -
  have h: "heap (snd (new_influx_store [] world0)) 0 = Some (InfluxStoreObj (InfluxDBClient [] []))"
    by (simp add: new_influx_store_def alloc_def world0_def)
  show ?thesis
    using point_written [OF h, of "''kitchen''" "''temperature''" "PyFloat (Finite 19)"]
    by (simp add: influx_msg_def world0_def new_influx_store_def alloc_def)
qed

section \<open>The list of sinks\<close>

text \<open>
  C8. In every reachable state, what \<^verbatim>\<open>stores\<close> returns is a new list with the
  elements of \<^verbatim>\<open>_stores\<close>, not \<^verbatim>\<open>_stores\<close> itself: whatever a caller does to
  the returned list, \<^verbatim>\<open>_stores\<close> keeps its elements, and a message delivered
  afterwards has the same result, the same trace and so the same invocations of the sinks
  as it has with the returned list left alone.
\<close>

theorem stores_is_a_copy:
  assumes "well_formed self w" and "stores self w = (Inr r, w1)"
  shows "stores_attr self \<noteq> Some r \<and>
     list_contents w1 r = registered self w \<and>
     registered self (list_assign r ys w1) = registered self w \<and>
     fst (on_message self msg (list_assign r ys w1)) = fst (on_message self msg w1) \<and>
     trace (snd (on_message self msg (list_assign r ys w1))) = trace (snd (on_message self msg w1)) \<and>
     store_calls (snd (on_message self msg (list_assign r ys w1))) =
       store_calls (snd (on_message self msg w1))"
proof -
  from assms(2) obtain l xs where l: "stores_attr self = Some l"
    and xs: "heap w l = Some (ListObj xs)"
    and r: "r = nxt w"
    and w1: "w1 = w\<lparr>heap := (heap w)(nxt w \<mapsto> ListObj xs), nxt := Suc (nxt w)\<rparr>"
    by (auto simp: stores_def alloc_def split: option.splits obj.splits)
  have lr: "l < r" and below: "\<forall>x\<in>set xs. x < r"
    using assms(1) l xs r by (simp_all add: well_formed_def list_all_iff)
  let ?wA = "list_assign r ys w1"
  have wA: "?wA = w1\<lparr>heap := (heap w1)(r \<mapsto> ListObj ys)\<rparr>"
    using w1 r by (simp add: list_assign_def)
  have sb: "same_but r w1 ?wA" unfolding wA by (simp add: same_but_def)
  have hl: "heap w1 l = Some (ListObj xs)" "heap ?wA l = Some (ListObj xs)"
    using lr xs w1 r wA by simp_all
  have p1: "stores_attr self \<noteq> Some r" using l lr by simp
  have p2: "list_contents w1 r = registered self w"
    using l xs w1 r by (simp add: list_contents_def registered_def)
  have p3: "registered self ?wA = registered self w"
    using l xs hl by (simp add: registered_def list_contents_def)
  have p45: "fst (on_message self msg ?wA) = fst (on_message self msg w1) \<and>
     trace (snd (on_message self msg ?wA)) = trace (snd (on_message self msg w1))"
  proof (cases "re_match regex (topic msg)")
    case None
    then show ?thesis using sb by (simp add: on_message_unmatched same_but_def)
  next
    case (Some g)
    show ?thesis
    proof (cases "match_group g ''node_name'' \<in> set (node_names self)")
      case False
      then show ?thesis using Some sb by (simp add: on_message_unconfigured same_but_def)
    next
      case True
      let ?e = "Log ''forwarder.MQTTSource'' DEBUG
               (Fmt ''Received MQTT message for topic %s with payload %s''
                  [PyStr (topic msg), PyStr (payload msg)])"
      let ?u1 = "w1\<lparr>trace := trace w1 @ [?e],
          heap := (heap w1)(nxt w1 \<mapsto> ListObj xs), nxt := Suc (nxt w1)\<rparr>"
      let ?uA = "?wA\<lparr>trace := trace ?wA @ [?e],
          heap := (heap ?wA)(nxt ?wA \<mapsto> ListObj xs), nxt := Suc (nxt ?wA)\<rparr>"
      let ?n = "match_group g ''node_name''" and ?m = "match_group g ''measurement_name''"
      have o1: "on_message self msg w1 = for_stores xs ?n ?m (coerce (payload msg)) ?u1"
        using on_message_matched [OF Some True l hl(1)] .
      have oA: "on_message self msg ?wA = for_stores xs ?n ?m (coerce (payload msg)) ?uA"
        using on_message_matched [OF Some True l hl(2)] .
      have sbu: "same_but r ?u1 ?uA" using sb by (simp add: same_but_def)
      have nr: "r \<notin> set xs" using below by auto
      from for_stores_same_but [OF sbu nr, of ?n ?m "coerce (payload msg)"]
      show ?thesis unfolding o1 oA by (simp add: same_but_def)
    qed
  qed
  show ?thesis using p1 p2 p3 p45 by (simp add: store_calls_def)
qed

theorem stores_is_a_copy_witness:
  "fst (stores (fst (deployment [''kitchen''] [[]])) (snd (deployment [''kitchen''] [[]]))) = Inr 2 \<and>
   registered (fst (deployment [''kitchen''] [[]]))
     (list_assign 2 [] (snd (stores (fst (deployment [''kitchen''] [[]]))
                                    (snd (deployment [''kitchen''] [[]]))))) = [0] \<and>
   store_calls (snd (on_message (fst (deployment [''kitchen''] [[]]))
      \<lparr>topic = ''/kitchen/temperature'', payload = ''19.0''\<rparr>
      (list_assign 2 [] (snd (stores (fst (deployment [''kitchen''] [[]]))
                                    (snd (deployment [''kitchen''] [[]])))))))
     = [(0, ''kitchen'', ''temperature'', PyFloat (Finite 19))]"
proof -
  let ?self = "fst (deployment [''kitchen''] [[]])" and ?w = "snd (deployment [''kitchen''] [[]])"
  let ?msg = "\<lparr>topic = ''/kitchen/temperature'', payload = ''19.0''\<rparr>"
  have h1: "well_formed ?self ?w" by (simp add: eval_defs well_formed_def)
  have h2': "fst (stores ?self ?w) = Inr 2" by (simp add: eval_defs)
  have h2: "stores ?self ?w = (Inr 2, snd (stores ?self ?w))"
    using h2' by (metis prod.collapse)
  have c: "registered ?self ?w = [0]"
    "store_calls (snd (on_message ?self ?msg (snd (stores ?self ?w)))) =
       [(0, ''kitchen'', ''temperature'', PyFloat (Finite 19))]"
    by (simp_all add: eval_defs float_defs registered_def)
  show ?thesis
    using stores_is_a_copy [OF h1 h2, of "[]" ?msg] h2' c by simp
qed

text \<open>
  C10. \<^verbatim>\<open>_stores\<close> is created by the first \<^verbatim>\<open>register_store\<close>: a source as
  constructed has no such attribute; while it has none, reading \<^verbatim>\<open>stores\<close> raises
  \<^verbatim>\<open>AttributeError\<close> instead of returning an empty list, and so does the handler
  on every message whose topic parses, with no sink invoked; the first
  \<^verbatim>\<open>register_store\<close> creates the list, with the sink as its only element.
\<close>

theorem stores_created_on_first_registration:
  "stores_attr (mqtt_source_init h p names) = None \<and>
   (stores_attr self = None \<longrightarrow>
      stores self w = (Inl (AttributeError ''_stores''), w) \<and>
      (re_match regex (topic msg) \<noteq> None \<longrightarrow>
         (\<exists>a. fst (on_message self msg w) = Inl (AttributeError a)) \<and>
         store_calls (snd (on_message self msg w)) = store_calls w) \<and>
      fst (register_store s self w) = Inr () \<and>
      stores_attr (fst (snd (register_store s self w))) = Some (nxt w) \<and>
      heap (snd (snd (register_store s self w))) (nxt w) = Some (ListObj [s]))"
proof (intro conjI impI)
  show "stores_attr (mqtt_source_init h p names) = None" by (simp add: mqtt_source_init_def)
next
  assume n: "stores_attr self = None"
  show "stores self w = (Inl (AttributeError ''_stores''), w)" using n by (simp add: stores_def)
  show "fst (register_store s self w) = Inr ()"
    "stores_attr (fst (snd (register_store s self w))) = Some (nxt w)"
    "heap (snd (snd (register_store s self w))) (nxt w) = Some (ListObj [s])"
    using n by (simp_all add: register_store_def alloc_def Let_def)
  assume "re_match regex (topic msg) \<noteq> None"
  then obtain g where g: "re_match regex (topic msg) = Some g" by blast
  show "\<exists>a. fst (on_message self msg w) = Inl (AttributeError a)"
    using on_message_unconfigured [OF g, of self w] on_message_no_stores [OF g _ n, of w]
    by (cases "match_group g ''node_name'' \<in> set (node_names self)") auto
  show "store_calls (snd (on_message self msg w)) = store_calls w"
    using on_message_unconfigured [OF g, of self w] on_message_no_stores [OF g _ n, of w]
    by (cases "match_group g ''node_name'' \<in> set (node_names self)")
       (auto simp: store_calls_def invocations_append)
qed

theorem stores_created_on_first_registration_witness:
  "stores (mqtt_source_init ''mqtt'' ''1883'' [''kitchen'']) world0
     = (Inl (AttributeError ''_stores''), world0) \<and>
   fst (on_message (mqtt_source_init ''mqtt'' ''1883'' [''kitchen''])
          \<lparr>topic = ''/kitchen/temperature'', payload = ''19.0''\<rparr> world0)
     = Inl (AttributeError ''_stores'') \<and>
   stores_attr (fst (snd (register_store 0 (mqtt_source_init ''mqtt'' ''1883'' [''kitchen''])
      (snd (new_influx_store [] world0))))) = Some 1"
proof -
  have a: "stores_attr (mqtt_source_init ''mqtt'' ''1883'' [''kitchen'']) = None"
    by (simp add: mqtt_source_init_def)
  have b: "re_match regex (topic \<lparr>topic = ''/kitchen/temperature'', payload = ''19.0''\<rparr>) \<noteq> None"
    by (simp add: re_match_regex is_word_def)
  have c: "fst (on_message (mqtt_source_init ''mqtt'' ''1883'' [''kitchen''])
          \<lparr>topic = ''/kitchen/temperature'', payload = ''19.0''\<rparr> world0)
     = Inl (AttributeError ''_stores'')"
    by (simp add: eval_defs float_defs)
  show ?thesis
    using stores_created_on_first_registration [of "''mqtt''" "''1883''" "[''kitchen'']"
        "mqtt_source_init ''mqtt'' ''1883'' [''kitchen'']" world0
        "\<lparr>topic = ''/kitchen/temperature'', payload = ''19.0''\<rparr>" 0]
      stores_created_on_first_registration [of "''mqtt''" "''1883''" "[''kitchen'']"
        "mqtt_source_init ''mqtt'' ''1883'' [''kitchen'']" "snd (new_influx_store [] world0)"
        "\<lparr>topic = ''/kitchen/temperature'', payload = ''19.0''\<rparr>" 0]
      a b c
    by (simp add: new_influx_store_def alloc_def world0_def)
qed

end
